theory Spec2Isabelle
  imports Main "HOL-Library.Char_ord" "HOL-Library.List_Lexorder" "HOL-Library.Multiset"
begin

section \<open>The migration engine of src/database/migrate.js\<close>

text \<open>
  The class \<open>DatabaseMigrator\<close> talks to three collaborators that are not part of the
  file: the connection object (\<open>connect\<close>, \<open>query\<close>, \<open>close\<close>), the file system
  (\<open>readdir\<close>, \<open>mkdir\<close>, \<open>readFile\<close>, \<open>writeFile\<close>) and the clock. Their answers are
  the fields of the record \<open>env\<close>, with \<open>__dirname\<close>, the directory of the module; what the migrator does with them is the record
  \<open>state\<close>, threaded through every operation. An awaited call that rejects is the
  left injection of a sum.

  JavaScript strings are sequences of code units; a \<open>char\<close> stands for one code unit
  (those below 256), and the order on strings is the code-unit lexicographic order that
  \<open>Array.prototype.sort\<close> uses by default.
\<close>

subsection \<open>Data\<close>

datatype error = DbError string | FsError string

text \<open>The four shapes of query that the migrator sends through \<open>dbConnection.query\<close>.\<close>

datatype query =
    CreateTable
  | SelectVersions
  | Statement string
  | InsertMigration string string int

text \<open>
  A row of \<open>schema_migrations\<close>. The surrogate \<open>id\<close> is the position of the row in the
  list; \<open>checksum\<close> is a nullable column.
\<close>

record migration_row =
  version :: string
  name :: string
  checksum :: "string option"
  execution_time :: int

record utc_time =
  year :: nat
  month :: nat
  day :: nat
  hours :: nat
  minutes :: nat
  seconds :: nat
  millis :: nat

record env =
  connect_error :: "error option"
  query_error :: "query list \<Rightarrow> query \<Rightarrow> error option"
  close_error :: "error option"
  readdir :: "error + string list"
  mkdir_error :: "error option"
  readFile :: "string \<Rightarrow> error + string"
  writeFile_error :: "string \<Rightarrow> error option"
  date_now :: "nat \<Rightarrow> int"
  new_Date :: "nat \<Rightarrow> utc_time"
  dirname :: string

record state =
  rows :: "migration_row list"
  queries :: "query list"
  reads :: "string list"
  written :: "(string \<times> string) list"
  mkdirs :: nat
  connects :: nat
  closes :: nat
  clock_reads :: nat

subsection \<open>String primitives of JavaScript\<close>

text \<open>\<open>s.endsWith(suf)\<close>\<close>

definition endsWith :: "string \<Rightarrow> string \<Rightarrow> bool" where
  "endsWith s suf = (length suf \<le> length s \<and> drop (length s - length suf) s = suf)"

text \<open>\<open>s.startsWith(p)\<close>, used to find the first occurrence of a pattern.\<close>

fun startsWith :: "string \<Rightarrow> string \<Rightarrow> bool" where
  "startsWith s [] = True"
| "startsWith [] (p # ps) = False"
| "startsWith (c # cs) (p # ps) = (c = p \<and> startsWith cs ps)"

text \<open>
  \<open>s.replace(pat, rep)\<close> with a string pattern: only the first occurrence is replaced.
\<close>

fun replace_first :: "string \<Rightarrow> string \<Rightarrow> string \<Rightarrow> string" where
  "replace_first pat rep [] = (if pat = [] then rep else [])"
| "replace_first pat rep (c # cs) =
     (if startsWith (c # cs) pat then rep @ drop (length pat) (c # cs)
      else c # replace_first pat rep cs)"

text \<open>\<open>s.replace(/_/g, ' ')\<close>\<close>

definition underscores_to_spaces :: "string \<Rightarrow> string" where
  "underscores_to_spaces s = map (\<lambda>c. if c = CHR ''_'' then CHR '' '' else c) s"

text \<open>The code units below 256 that \<open>\s\<close> and \<open>trim\<close> treat as white space.\<close>

definition is_space :: "char \<Rightarrow> bool" where
  "is_space c = (c = CHR 0x09 \<or> c = CHR 0x0A \<or> c = CHR 0x0B \<or> c = CHR 0x0C
                 \<or> c = CHR 0x0D \<or> c = CHR 0x20 \<or> c = CHR 0xA0)"

text \<open>\<open>s.replace(/\s+/g, '_')\<close>: every maximal run of white space becomes one separator.\<close>

function spaces_to_underscore :: "string \<Rightarrow> string" where
  "spaces_to_underscore [] = []"
| "spaces_to_underscore (c # cs) =
     (if is_space c then CHR ''_'' # spaces_to_underscore (dropWhile is_space cs)
      else c # spaces_to_underscore cs)"
  by pat_completeness auto
termination
  by (relation "measure length") (auto simp: length_dropWhile_le le_imp_less_Suc)

text \<open>\<open>s.trim()\<close>\<close>

definition trim :: "string \<Rightarrow> string" where
  "trim s = rev (dropWhile is_space (rev (dropWhile is_space s)))"

text \<open>\<open>s.split(c)\<close> for a one-character separator; the empty string gives one empty piece.\<close>

fun split_on :: "char \<Rightarrow> string \<Rightarrow> string list" where
  "split_on sep [] = [[]]"
| "split_on sep (c # cs) =
     (if c = sep then [] # split_on sep cs
      else (case split_on sep cs of
              [] \<Rightarrow> [[c]]
            | piece # pieces \<Rightarrow> (c # piece) # pieces))"

subsection \<open>The connection\<close>

definition unique_violation :: error where
  "unique_violation = DbError ''duplicate key value violates unique constraint''"

text \<open>
  \<open>dbConnection.query\<close> for the queries that return no rows. Every query sent is
  logged. The connection may reject any query (\<open>query_error\<close>, which sees the queries
  sent before); an insert is also rejected by the \<open>UNIQUE\<close> constraint that
  \<open>createMigrationsTable\<close> puts on \<open>version\<close>. The insert names the columns
  \<open>version\<close>, \<open>name\<close> and \<open>execution_time\<close> only, so \<open>checksum\<close> stays null.
  Statements of change-scripts are taken not to touch \<open>schema_migrations\<close>.
\<close>

definition dbConnection_query :: "env \<Rightarrow> query \<Rightarrow> state \<Rightarrow> (error + unit) \<times> state" where
  "dbConnection_query e q s =
     (let s' = s\<lparr>queries := queries s @ [q]\<rparr> in
      case query_error e (queries s) q of
        Some err \<Rightarrow> (Inl err, s')
      | None \<Rightarrow>
          (case q of
             InsertMigration v n t \<Rightarrow>
               if v \<in> set (map version (rows s)) then (Inl unique_violation, s')
               else (Inr (), s'\<lparr>rows := rows s @
                       [\<lparr>version = v, name = n, checksum = None, execution_time = t\<rparr>]\<rparr>)
           | _ \<Rightarrow> (Inr (), s')))"

text \<open>\<open>dbConnection.close()\<close>\<close>

definition dbConnection_close :: "env \<Rightarrow> state \<Rightarrow> (error + unit) \<times> state" where
  "dbConnection_close e s =
     ((case close_error e of Some err \<Rightarrow> Inl err | None \<Rightarrow> Inr ()),
      s\<lparr>closes := closes s + 1\<rparr>)"

text \<open>\<open>Date.now()\<close>: the next reading of the clock, in milliseconds.\<close>

definition Date_now :: "env \<Rightarrow> state \<Rightarrow> int \<times> state" where
  "Date_now e s = (date_now e (clock_reads s), s\<lparr>clock_reads := clock_reads s + 1\<rparr>)"

subsection \<open>DatabaseMigrator\<close>

definition createMigrationsTable :: "env \<Rightarrow> state \<Rightarrow> (error + unit) \<times> state" where
  "createMigrationsTable e s = dbConnection_query e CreateTable s"

definition initialize :: "env \<Rightarrow> state \<Rightarrow> (error + unit) \<times> state" where
  "initialize e s =
     (let s1 = s\<lparr>connects := connects s + 1\<rparr> in
      case connect_error e of
        Some err \<Rightarrow> (Inl err, s1)
      | None \<Rightarrow> createMigrationsTable e s1)"

definition getExecutedMigrations :: "env \<Rightarrow> state \<Rightarrow> (error + string list) \<times> state" where
  "getExecutedMigrations e s =
     (let s' = s\<lparr>queries := queries s @ [SelectVersions]\<rparr> in
      case query_error e (queries s) SelectVersions of
        Some err \<Rightarrow> (Inl err, s')
      | None \<Rightarrow> (Inr (map version (rows s)), s'))"

definition getMigrationFiles :: "env \<Rightarrow> state \<Rightarrow> (error + string list) \<times> state" where
  "getMigrationFiles e s =
     (case readdir e of
        Inr files \<Rightarrow> (Inr (sort (filter (\<lambda>file. endsWith file ''.sql'') files)), s)
      | Inl _ \<Rightarrow>
          (let s' = s\<lparr>mkdirs := mkdirs s + 1\<rparr> in
           case mkdir_error e of
             Some err \<Rightarrow> (Inl err, s')
           | None \<Rightarrow> (Inr [], s')))"

text \<open>The \<open>for\<close> loop of \<open>runMigration\<close> over the statements of one script.\<close>

fun run_statements :: "env \<Rightarrow> string list \<Rightarrow> state \<Rightarrow> (error + unit) \<times> state" where
  "run_statements e [] s = (Inr (), s)"
| "run_statements e (statement # rest) s =
     (if trim statement \<noteq> [] then
        (case dbConnection_query e (Statement statement) s of
           (Inl err, s') \<Rightarrow> (Inl err, s')
         | (Inr _, s') \<Rightarrow> run_statements e rest s')
      else run_statements e rest s)"

definition statements_of :: "string \<Rightarrow> string list" where
  "statements_of sqlContent =
     filter (\<lambda>stmt. length stmt > 0) (map trim (split_on CHR '';'' sqlContent))"

text \<open>
  \<open>runMigration(filePath, version, name)\<close>. The file is addressed by its name inside
  \<open>migrationsPath\<close>. The \<open>catch\<close> block logs and throws the error it caught.
\<close>

definition runMigration :: "env \<Rightarrow> string \<Rightarrow> string \<Rightarrow> string \<Rightarrow> state \<Rightarrow> (error + unit) \<times> state" where
  "runMigration e file v n s =
     (let (startTime, s0) = Date_now e s;
          s1 = s0\<lparr>reads := reads s0 @ [file]\<rparr> in
      case readFile e file of
        Inl err \<Rightarrow> (Inl err, s1)
      | Inr sqlContent \<Rightarrow>
          (case run_statements e (statements_of sqlContent) s1 of
             (Inl err, s2) \<Rightarrow> (Inl err, s2)
           | (Inr _, s2) \<Rightarrow>
               (let (endTime, s3) = Date_now e s2 in
                dbConnection_query e (InsertMigration v n (endTime - startTime)) s3)))"

definition version_of :: "string \<Rightarrow> string" where
  "version_of file = replace_first ''.sql'' [] file"

definition name_of :: "string \<Rightarrow> string" where
  "name_of file = underscores_to_spaces (replace_first ''.sql'' [] file)"

text \<open>
  The \<open>for\<close> loop of \<open>migrate\<close> over the migration files; the number carried along is
  \<open>executedCount\<close>.
\<close>

fun migrate_loop :: "env \<Rightarrow> string list \<Rightarrow> string list \<Rightarrow> nat \<Rightarrow> state \<Rightarrow> (error + nat) \<times> state" where
  "migrate_loop e executedMigrations [] executedCount s = (Inr executedCount, s)"
| "migrate_loop e executedMigrations (file # files) executedCount s =
     (if version_of file \<notin> set executedMigrations then
        (case runMigration e file (version_of file) (name_of file) s of
           (Inl err, s') \<Rightarrow> (Inl err, s')
         | (Inr _, s') \<Rightarrow> migrate_loop e executedMigrations files (executedCount + 1) s')
      else migrate_loop e executedMigrations files executedCount s)"

text \<open>The \<open>try\<close> block of \<open>migrate\<close>.\<close>

definition migrate_try :: "env \<Rightarrow> state \<Rightarrow> (error + nat) \<times> state" where
  "migrate_try e s =
     (case initialize e s of
        (Inl err, s1) \<Rightarrow> (Inl err, s1)
      | (Inr _, s1) \<Rightarrow>
          (case getExecutedMigrations e s1 of
             (Inl err, s2) \<Rightarrow> (Inl err, s2)
           | (Inr executedMigrations, s2) \<Rightarrow>
               (case getMigrationFiles e s2 of
                  (Inl err, s3) \<Rightarrow> (Inl err, s3)
                | (Inr migrationFiles, s3) \<Rightarrow>
                    migrate_loop e executedMigrations migrationFiles 0 s3)))"

text \<open>
  \<open>migrate()\<close>: the \<open>try\<close> block, then the \<open>finally\<close> block, whose own failure replaces
  the outcome of the \<open>try\<close> block. The source returns nothing on success; the model
  returns \<open>executedCount\<close>, which the source logs.
\<close>

definition migrate :: "env \<Rightarrow> state \<Rightarrow> (error + nat) \<times> state" where
  "migrate e s =
     (case migrate_try e s of
        (r, s1) \<Rightarrow>
          (case dbConnection_close e s1 of
             (Inl err, s2) \<Rightarrow> (Inl err, s2)
           | (Inr _, s2) \<Rightarrow> (r, s2)))"

text \<open>
  The files that the loop of \<open>migrate\<close> does not skip: those whose version is not among
  the executed ones, in the order of the list.
\<close>

definition pending :: "string list \<Rightarrow> string list \<Rightarrow> string list" where
  "pending executedMigrations files =
     filter (\<lambda>file. version_of file \<notin> set executedMigrations) files"

subsection \<open>Authoring a migration\<close>

definition digit_char :: "nat \<Rightarrow> char" where
  "digit_char d = ''0123456789'' ! d"

definition is_digit :: "char \<Rightarrow> bool" where
  "is_digit c = (c \<in> set ''0123456789'')"

text \<open>The last \<open>k\<close> decimal digits of \<open>n\<close>, with leading zeros.\<close>

fun pad :: "nat \<Rightarrow> nat \<Rightarrow> string" where
  "pad 0 n = []"
| "pad (Suc k) n = pad k (n div 10) @ [digit_char (n mod 10)]"

text \<open>
  \<open>Date.prototype.toISOString\<close>: \<open>YYYY-MM-DDTHH:mm:ss.sssZ\<close>, and the expanded form with a
  sign and six digits for a year above 9999.
\<close>

definition toISOString :: "utc_time \<Rightarrow> string" where
  "toISOString t =
     (if year t \<le> 9999 then pad 4 (year t) else CHR ''+'' # pad 6 (year t))
     @ ''-'' @ pad 2 (month t) @ ''-'' @ pad 2 (day t)
     @ ''T'' @ pad 2 (hours t) @ '':'' @ pad 2 (minutes t) @ '':'' @ pad 2 (seconds t)
     @ ''.'' @ pad 3 (millis t) @ ''Z''"

text \<open>\<open>new Date()\<close>: the next reading of the clock, as a calendar time in UTC.\<close>

definition new_Date_read :: "env \<Rightarrow> state \<Rightarrow> utc_time \<times> state" where
  "new_Date_read e s = (new_Date e (clock_reads s), s\<lparr>clock_reads := clock_reads s + 1\<rparr>)"

definition newline :: string where
  "newline = [CHR 0x0A]"

definition template_of :: "string \<Rightarrow> string \<Rightarrow> string" where
  "template_of nm created =
     ''-- Migration: '' @ nm @ newline
     @ ''-- Created: '' @ created @ newline
     @ ''-- Description: Add your SQL statements here'' @ newline
     @ newline
     @ ''-- Example:'' @ newline
     @ ''-- CREATE TABLE IF NOT EXISTS example_table ('' @ newline
     @ ''--     id SERIAL PRIMARY KEY,'' @ newline
     @ ''--     name VARCHAR(255) NOT NULL,'' @ newline
     @ ''--     created_at TIMESTAMP DEFAULT CURRENT_TIMESTAMP'' @ newline
     @ ''-- );'' @ newline
     @ newline
     @ ''-- Add your migration SQL here'' @ newline"

definition timestamp_of :: "utc_time \<Rightarrow> string" where
  "timestamp_of t = take 14 (filter is_digit (toISOString t))"

definition fileName_of :: "string \<Rightarrow> string \<Rightarrow> string" where
  "fileName_of timestamp nm = timestamp @ ''_'' @ spaces_to_underscore nm @ ''.sql''"

text \<open>\<open>xs.join(sep)\<close>\<close>

fun intercalate :: "string \<Rightarrow> string list \<Rightarrow> string" where
  "intercalate sep [] = []"
| "intercalate sep [x] = x"
| "intercalate sep (x # y # ys) = x @ sep @ intercalate sep (y # ys)"

text \<open>
  \<open>path.join\<close> and \<open>path.normalize\<close> of Node on a POSIX system. \<open>normalizeString\<close> goes
  through the segments between slashes: an empty segment and \<open>.\<close> are dropped, \<open>..\<close>
  removes the segment before it (or stays, in a relative path, when there is none to
  remove), every other segment is kept.
\<close>

definition norm_step :: "bool \<Rightarrow> string list \<Rightarrow> string \<Rightarrow> string list" where
  "norm_step allowAboveRoot res seg =
     (if seg = [] \<or> seg = ''.'' then res
      else if seg = ''..'' then
        (if res \<noteq> [] \<and> last res \<noteq> ''..'' then butlast res
         else if allowAboveRoot then res @ [''..'']
         else res)
      else res @ [seg])"

definition normalizeString :: "string \<Rightarrow> bool \<Rightarrow> string" where
  "normalizeString path allowAboveRoot =
     intercalate ''/'' (foldl (norm_step allowAboveRoot) [] (split_on CHR ''/'' path))"

definition path_normalize :: "string \<Rightarrow> string" where
  "path_normalize path =
     (if path = [] then ''.''
      else
        (let isAbsolute = (hd path = CHR ''/'');
             trailingSeparator = (last path = CHR ''/'');
             p = normalizeString path (\<not> isAbsolute) in
         if p = [] then (if isAbsolute then ''/'' else if trailingSeparator then ''./'' else ''.'')
         else (if isAbsolute then ''/'' else []) @ p @ (if trailingSeparator then ''/'' else [])))"

definition path_join :: "string list \<Rightarrow> string" where
  "path_join args =
     (if filter (\<lambda>arg. arg \<noteq> []) args = [] then ''.''
      else path_normalize (intercalate ''/'' (filter (\<lambda>arg. arg \<noteq> []) args)))"

text \<open>The field \<open>migrationsPath\<close> that the constructor sets.\<close>

definition migrationsPath :: "env \<Rightarrow> string" where
  "migrationsPath e = path_join [dirname e, ''migrations'']"

text \<open>The last segment of a path that does not end in a slash.\<close>

definition basename :: "string \<Rightarrow> string" where
  "basename path = last (split_on CHR ''/'' path)"

text \<open>\<open>s.includes(pat)\<close>\<close>

fun string_includes :: "string \<Rightarrow> string \<Rightarrow> bool" where
  "string_includes [] pat = startsWith [] pat"
| "string_includes (c # cs) pat = (startsWith (c # cs) pat \<or> string_includes cs pat)"

text \<open>
  \<open>createMigration(name)\<close>. The file is written at \<open>path.join(migrationsPath, fileName)\<close>;
  the value returned is \<open>fileName\<close>.
\<close>

definition createMigration :: "env \<Rightarrow> string \<Rightarrow> state \<Rightarrow> (error + string) \<times> state" where
  "createMigration e nm s =
     (let (d1, s1) = new_Date_read e s;
          fileName = fileName_of (timestamp_of d1) nm;
          filePath = path_join [migrationsPath e, fileName];
          (d2, s2) = new_Date_read e s1;
          template = template_of nm (toISOString d2) in
      case writeFile_error e filePath of
        Some err \<Rightarrow> (Inl err, s2)
      | None \<Rightarrow> (Inr fileName, s2\<lparr>written := written s2 @ [(filePath, template)]\<rparr>))"

text \<open>
  The name that the loop of \<open>migrate\<close> derives from a file, without the version prefix
  that \<open>createMigration\<close> puts in front: fourteen digits and one separator.
\<close>

definition recovered_name :: "string \<Rightarrow> string" where
  "recovered_name fileName = drop 15 (name_of fileName)"

subsection \<open>The command line\<close>

text \<open>
  The block under \<open>require.main === module\<close>, with \<open>process.argv[2]\<close> and
  \<open>process.argv[3]\<close> as options (absent is \<open>None\<close>). The value is the exit code of the
  process: \<open>process.exit(1)\<close> ends it with 1; a promise whose rejection is handled by
  \<open>.catch(console.error)\<close> leaves the exit code at 0.
\<close>

definition cli :: "string option \<Rightarrow> string option \<Rightarrow> env \<Rightarrow> state \<Rightarrow> nat \<times> state" where
  "cli command nm e s =
     (case command of
        None \<Rightarrow> (1, s)
      | Some c \<Rightarrow>
          if c = ''migrate'' then (0, snd (migrate e s))
          else if c = ''create'' then
            (case nm of
               None \<Rightarrow> (1, s)
             | Some n \<Rightarrow> if n = [] then (1, s) else (0, snd (createMigration e n s)))
          else (1, s))"

subsection \<open>Concrete runs\<close>

definition state0 :: state where
  "state0 = \<lparr>rows = [], queries = [], reads = [], written = [], mkdirs = 0, connects = 0,
             closes = 0, clock_reads = 0\<rparr>"

definition time0 :: utc_time where
  "time0 = \<lparr>year = 2024, month = 3, day = 9, hours = 18, minutes = 5, seconds = 47, millis = 12\<rparr>"

text \<open>
  A directory with the given listing, whose scripts have the given contents. The only
  statement the database rejects is \<open>BOOM\<close>.
\<close>

definition env_of :: "string list \<Rightarrow> (string \<times> string) list \<Rightarrow> env" where
  "env_of listing contents =
     \<lparr>connect_error = None,
      query_error = (\<lambda>h q. if q = Statement ''BOOM'' then Some (DbError ''syntax error'') else None),
      close_error = None,
      readdir = Inr listing,
      mkdir_error = None,
      readFile = (\<lambda>file. case map_of contents file of
                            None \<Rightarrow> Inl (FsError ''ENOENT'')
                          | Some c \<Rightarrow> Inr c),
      writeFile_error = (\<lambda>file. None),
      date_now = (\<lambda>k. 1000 + 7 * int k),
      new_Date = (\<lambda>k. time0),
      dirname = ''/app/src/database''\<rparr>"

definition three_scripts :: "(string \<times> string) list" where
  "three_scripts =
     [(''20240101000000_a.sql'', ''CREATE TABLE a (id INT); INSERT INTO a VALUES (1);''),
      (''20240102000000_b.sql'', ''CREATE TABLE b (id INT);''),
      (''20240103000000_c.sql'', ''CREATE TABLE c (id INT);'')]"

definition env_three :: env where
  "env_three =
     env_of [''20240101000000_a.sql'', ''20240103000000_c.sql'', ''README.md'',
             ''20240102000000_b.sql''] three_scripts"

text \<open>
  The state in which the loop of \<open>migrate\<close> starts when \<open>initialize\<close> and
  \<open>getExecutedMigrations\<close> have succeeded: one connection made, two queries sent.
\<close>

definition entered :: "state \<Rightarrow> state" where
  "entered s = s\<lparr>connects := connects s + 1, queries := queries s @ [CreateTable, SelectVersions]\<rparr>"

text \<open>A migrations directory that cannot be listed.\<close>

definition env_unreadable :: env where
  "env_unreadable = (env_of [] three_scripts)\<lparr>readdir := Inl (FsError ''EACCES'')\<rparr>"

text \<open>
  A migrations path that is a regular file: it can neither be listed nor be made a
  directory.
\<close>

definition env_not_a_directory :: env where
  "env_not_a_directory =
     (env_of [] three_scripts)\<lparr>readdir := Inl (FsError ''ENOTDIR''),
                                 mkdir_error := Some (FsError ''EEXIST'')\<rparr>"

text \<open>Three scripts of which the second holds the rejected statement, under two names.\<close>

definition env_b_fails :: env where
  "env_b_fails =
     env_of [''20240103000000_c.sql'', ''20240101000000_a.sql'', ''20240102000000_b.sql'']
       [(''20240101000000_a.sql'', ''CREATE TABLE a (id INT);''),
        (''20240102000000_b.sql'', ''CREATE TABLE b (id INT); BOOM; DROP TABLE a''),
        (''20240103000000_c.sql'', ''CREATE TABLE c (id INT);'')]"

definition env_x_fails :: env where
  "env_x_fails =
     env_of [''20240103000000_c.sql'', ''20240101000000_a.sql'', ''20240102000000_x.sql'']
       [(''20240101000000_a.sql'', ''CREATE TABLE a (id INT);''),
        (''20240102000000_x.sql'', ''CREATE TABLE b (id INT); BOOM; DROP TABLE a''),
        (''20240103000000_c.sql'', ''CREATE TABLE c (id INT);'')]"

text \<open>Two scripts of which one version is a prefix of the other.\<close>

definition env_dash :: env where
  "env_dash =
     env_of [''v1.sql'', ''v1-fix.sql'']
       [(''v1.sql'', ''CREATE TABLE t (id INT);''),
        (''v1-fix.sql'', ''ALTER TABLE t ADD c INT;'')]"

text \<open>A table in which the first of the three scripts is recorded.\<close>

definition state_a_applied :: state where
  "state_a_applied =
     state0\<lparr>rows := [\<lparr>version = ''20240101000000_a'', name = ''20240101000000 a'',
                        checksum = None, execution_time = 7\<rparr>]\<rparr>"

text \<open>A database that refuses the connection.\<close>

definition env_down :: env where
  "env_down = (env_of [] [])\<lparr>connect_error := Some (DbError ''ECONNREFUSED'')\<rparr>"

text \<open>The names in which every run of white space is one space character.\<close>

fun single_spaced :: "string \<Rightarrow> bool" where
  "single_spaced [] = True"
| "single_spaced (c # cs) =
     (if is_space c
      then c = CHR '' '' \<and> (case cs of [] \<Rightarrow> True | d # _ \<Rightarrow> \<not> is_space d) \<and> single_spaced cs
      else single_spaced cs)"

section \<open>What each operation changes\<close>

lemma dbConnection_query_frame:
  assumes "dbConnection_query e q s = (r, s')"
  shows "queries s' = queries s @ [q]" "reads s' = reads s" "written s' = written s"
    "mkdirs s' = mkdirs s" "connects s' = connects s" "closes s' = closes s"
    "clock_reads s' = clock_reads s"
  using assms
  by (auto simp: dbConnection_query_def Let_def split: option.splits query.splits if_splits)

lemma dbConnection_query_rows:
  assumes "dbConnection_query e q s = (r, s')"
  shows "rows s' =
     (case (r, q) of
        (Inr _, InsertMigration v n t) \<Rightarrow>
           rows s @ [\<lparr>version = v, name = n, checksum = None, execution_time = t\<rparr>]
      | _ \<Rightarrow> rows s)"
  using assms
  by (auto simp: dbConnection_query_def Let_def split: option.splits query.splits if_splits)

lemma statement_rows:
  "dbConnection_query e (Statement st) s = (r, s') \<Longrightarrow> rows s' = rows s"
  by (auto simp: dbConnection_query_def Let_def split: option.splits)

lemma statement_error:
  "dbConnection_query e (Statement st) s = (Inl err, s') \<Longrightarrow>
     query_error e (queries s) (Statement st) = Some err"
  by (auto simp: dbConnection_query_def Let_def split: option.splits)

lemma run_statements_frame:
  assumes "run_statements e sts s = (r, s')"
  shows "rows s' = rows s \<and> reads s' = reads s \<and> written s' = written s \<and> mkdirs s' = mkdirs s
     \<and> connects s' = connects s \<and> closes s' = closes s \<and> clock_reads s' = clock_reads s"
  using assms
proof (induction sts arbitrary: s)
  case Nil
  then show ?case by simp
next
  case (Cons st sts)
  show ?case
  proof (cases "trim st \<noteq> []")
    case False
    with Cons show ?thesis by simp
  next
    case True
    obtain r1 s1 where q: "dbConnection_query e (Statement st) s = (r1, s1)"
      by (cases "dbConnection_query e (Statement st) s")
    note f = dbConnection_query_frame[OF q] statement_rows[OF q]
    show ?thesis
    proof (cases r1)
      case (Inl err)
      with Cons.prems True q f show ?thesis by auto
    next
      case (Inr u)
      with Cons.prems True q have "run_statements e sts s1 = (r, s')" by simp
      from Cons.IH[OF this] f show ?thesis by simp
    qed
  qed
qed

lemma run_statements_queries:
  assumes "run_statements e sts s = (r, s')"
  shows "\<exists>sent. queries s' = queries s @ map Statement sent \<and> set sent \<subseteq> set sts"
  using assms
proof (induction sts arbitrary: s)
  case Nil
  then show ?case by simp
next
  case (Cons st sts)
  show ?case
  proof (cases "trim st \<noteq> []")
    case False
    with Cons.prems have "run_statements e sts s = (r, s')" by simp
    from Cons.IH[OF this] show ?thesis by auto
  next
    case True
    obtain r1 s1 where q: "dbConnection_query e (Statement st) s = (r1, s1)"
      by (cases "dbConnection_query e (Statement st) s")
    note f = dbConnection_query_frame(1)[OF q]
    show ?thesis
    proof (cases r1)
      case (Inl err)
      with Cons.prems True q have "s' = s1" by simp
      with f have "queries s' = queries s @ map Statement [st]" by simp
      then show ?thesis by (intro exI[of _ "[st]"]) simp
    next
      case (Inr u)
      with Cons.prems True q have "run_statements e sts s1 = (r, s')" by simp
      from Cons.IH[OF this] obtain sent where
        "queries s' = queries s1 @ map Statement sent" "set sent \<subseteq> set sts" by blast
      with f have "queries s' = queries s @ map Statement (st # sent)" by simp
      moreover have "set (st # sent) \<subseteq> set (st # sts)" using \<open>set sent \<subseteq> set sts\<close> by auto
      ultimately show ?thesis by blast
    qed
  qed
qed

lemma run_statements_error:
  assumes "run_statements e sts s = (Inl err, s')"
  shows "\<exists>st h. st \<in> set sts \<and> query_error e h (Statement st) = Some err"
  using assms
proof (induction sts arbitrary: s)
  case Nil
  then show ?case by simp
next
  case (Cons st sts)
  show ?case
  proof (cases "trim st \<noteq> []")
    case False
    with Cons.prems have "run_statements e sts s = (Inl err, s')" by simp
    from Cons.IH[OF this] show ?thesis by auto
  next
    case True
    obtain r1 s1 where q: "dbConnection_query e (Statement st) s = (r1, s1)"
      by (cases "dbConnection_query e (Statement st) s")
    show ?thesis
    proof (cases r1)
      case (Inl err1)
      with Cons.prems True q have "err1 = err" by simp
      with Inl q statement_error have "query_error e (queries s) (Statement st) = Some err" by blast
      then show ?thesis by auto
    next
      case (Inr u)
      with Cons.prems True q have "run_statements e sts s1 = (Inl err, s')" by simp
      from Cons.IH[OF this] show ?thesis by auto
    qed
  qed
qed

lemma runMigration_frame:
  assumes "runMigration e f v n s = (r, s')"
  shows "reads s' = reads s @ [f] \<and> written s' = written s \<and> mkdirs s' = mkdirs s
     \<and> connects s' = connects s \<and> closes s' = closes s"
proof (cases "readFile e f")
  case (Inl err)
  with assms show ?thesis by (auto simp: runMigration_def Date_now_def)
next
  case (Inr c)
  let ?s1 = "s\<lparr>clock_reads := clock_reads s + 1, reads := reads s @ [f]\<rparr>"
  obtain r2 s2 where rs: "run_statements e (statements_of c) ?s1 = (r2, s2)"
    by (cases "run_statements e (statements_of c) ?s1")
  note f2 = run_statements_frame[OF rs]
  show ?thesis
  proof (cases r2)
    case (Inl err)
    with assms Inr rs f2 show ?thesis by (auto simp: runMigration_def Date_now_def)
  next
    case r2: (Inr u)
    let ?q = "InsertMigration v n (date_now e (clock_reads s2) - date_now e (clock_reads s))"
    let ?s3 = "s2\<lparr>clock_reads := clock_reads s2 + 1\<rparr>"
    from assms Inr rs r2 have ins: "dbConnection_query e ?q ?s3 = (r, s')"
      by (simp add: runMigration_def Date_now_def)
    from dbConnection_query_frame[OF ins] f2 show ?thesis by simp
  qed
qed

lemma runMigration_rows:
  assumes "runMigration e f v n s = (r, s')"
  shows "rows s' =
     (case r of
        Inl _ \<Rightarrow> rows s
      | Inr _ \<Rightarrow> rows s @ [\<lparr>version = v, name = n, checksum = None,
            execution_time = date_now e (clock_reads s + 1) - date_now e (clock_reads s)\<rparr>])"
proof (cases "readFile e f")
  case (Inl err)
  with assms show ?thesis by (auto simp: runMigration_def Date_now_def)
next
  case (Inr c)
  let ?s1 = "s\<lparr>clock_reads := clock_reads s + 1, reads := reads s @ [f]\<rparr>"
  obtain r2 s2 where rs: "run_statements e (statements_of c) ?s1 = (r2, s2)"
    by (cases "run_statements e (statements_of c) ?s1")
  note f2 = run_statements_frame[OF rs]
  show ?thesis
  proof (cases r2)
    case (Inl err)
    with assms Inr rs f2 show ?thesis by (auto simp: runMigration_def Date_now_def)
  next
    case r2: (Inr u)
    let ?q = "InsertMigration v n (date_now e (clock_reads s2) - date_now e (clock_reads s))"
    let ?s3 = "s2\<lparr>clock_reads := clock_reads s2 + 1\<rparr>"
    from assms Inr rs r2 have ins: "dbConnection_query e ?q ?s3 = (r, s')"
      by (simp add: runMigration_def Date_now_def)
    from dbConnection_query_rows[OF ins] f2 show ?thesis
      by (cases r) simp_all
  qed
qed

lemma migrate_loop_append:
  "migrate_loop e ex (xs @ ys) c s =
     (case migrate_loop e ex xs c s of
        (Inl err, s') \<Rightarrow> (Inl err, s')
      | (Inr c', s') \<Rightarrow> migrate_loop e ex ys c' s')"
  by (induction xs arbitrary: c s) (auto split: prod.splits sum.splits)

lemma migrate_loop_frame:
  assumes "migrate_loop e ex fs c s = (r, s')"
  shows "written s' = written s \<and> mkdirs s' = mkdirs s \<and> connects s' = connects s
     \<and> closes s' = closes s"
  using assms
proof (induction fs arbitrary: c s)
  case Nil
  then show ?case by simp
next
  case (Cons f fs)
  show ?case
  proof (cases "version_of f \<in> set ex")
    case True
    with Cons.prems have "migrate_loop e ex fs c s = (r, s')" by simp
    from Cons.IH[OF this] show ?thesis .
  next
    case False
    obtain r1 s1 where rm: "runMigration e f (version_of f) (name_of f) s = (r1, s1)"
      by (cases "runMigration e f (version_of f) (name_of f) s")
    note f1 = runMigration_frame[OF rm]
    show ?thesis
    proof (cases r1)
      case (Inl err)
      with Cons.prems False rm f1 show ?thesis by auto
    next
      case (Inr u)
      with Cons.prems False rm have "migrate_loop e ex fs (c + 1) s1 = (r, s')" by simp
      from Cons.IH[OF this] f1 show ?thesis by simp
    qed
  qed
qed

lemma migrate_loop_completed:
  assumes "migrate_loop e ex fs c s = (Inr c', s')"
  shows "c' = c + length (pending ex fs) \<and> reads s' = reads s @ pending ex fs
     \<and> (\<exists>new. rows s' = rows s @ new
          \<and> list_all2 (\<lambda>r f. version r = version_of f \<and> name r = name_of f \<and> checksum r = None)
               new (pending ex fs))"
  using assms
proof (induction fs arbitrary: c s)
  case Nil
  then show ?case by (simp add: pending_def)
next
  case (Cons f fs)
  show ?case
  proof (cases "version_of f \<in> set ex")
    case True
    with Cons.prems have "migrate_loop e ex fs c s = (Inr c', s')" by simp
    from Cons.IH[OF this] True show ?thesis by (simp add: pending_def)
  next
    case False
    obtain r1 s1 where rm: "runMigration e f (version_of f) (name_of f) s = (r1, s1)"
      by (cases "runMigration e f (version_of f) (name_of f) s")
    from Cons.prems False rm obtain u where r1: "r1 = Inr u"
      by (cases r1) auto
    with Cons.prems False rm have rest: "migrate_loop e ex fs (c + 1) s1 = (Inr c', s')" by simp
    from runMigration_frame[OF rm] have rd: "reads s1 = reads s @ [f]" by simp
    from runMigration_rows[OF rm] r1 obtain row where
      row: "rows s1 = rows s @ [row]" "version row = version_of f" "name row = name_of f"
        "checksum row = None"
      by simp
    from Cons.IH[OF rest] obtain new where
      ih: "c' = c + 1 + length (pending ex fs)" "reads s' = reads s1 @ pending ex fs"
        "rows s' = rows s1 @ new"
        "list_all2 (\<lambda>r f. version r = version_of f \<and> name r = name_of f \<and> checksum r = None)
           new (pending ex fs)"
      by auto
    have p: "pending ex (f # fs) = f # pending ex fs" using False by (simp add: pending_def)
    have "rows s' = rows s @ (row # new)" using ih(3) row(1) by simp
    moreover have "list_all2 (\<lambda>r f. version r = version_of f \<and> name r = name_of f \<and> checksum r = None)
        (row # new) (pending ex (f # fs))"
      using ih(4) row(2-4) p by simp
    ultimately show ?thesis using ih(1,2) rd p by auto
  qed
qed

lemma migrate_loop_reads:
  assumes "migrate_loop e ex fs c s = (r, s')"
  shows "\<exists>applied rest. reads s' = reads s @ applied \<and> pending ex fs = applied @ rest
     \<and> (\<forall>n. r = Inr n \<longrightarrow> rest = [])"
  using assms
proof (induction fs arbitrary: c s)
  case Nil
  then show ?case by (simp add: pending_def)
next
  case (Cons f fs)
  show ?case
  proof (cases "version_of f \<in> set ex")
    case True
    with Cons.prems have "migrate_loop e ex fs c s = (r, s')" by simp
    from Cons.IH[OF this] True show ?thesis by (simp add: pending_def)
  next
    case False
    have p: "pending ex (f # fs) = f # pending ex fs" using False by (simp add: pending_def)
    obtain r1 s1 where rm: "runMigration e f (version_of f) (name_of f) s = (r1, s1)"
      by (cases "runMigration e f (version_of f) (name_of f) s")
    from runMigration_frame[OF rm] have rd: "reads s1 = reads s @ [f]" by simp
    show ?thesis
    proof (cases r1)
      case (Inl err)
      with Cons.prems False rm have "r = Inl err" "s' = s1" by auto
      with rd p have "reads s' = reads s @ [f] \<and> pending ex (f # fs) = [f] @ pending ex fs
          \<and> (\<forall>n. r = Inr n \<longrightarrow> pending ex fs = [])"
        by simp
      then show ?thesis by blast
    next
      case (Inr u)
      with Cons.prems False rm have "migrate_loop e ex fs (c + 1) s1 = (r, s')" by simp
      from Cons.IH[OF this] obtain applied rest where
        "reads s' = reads s1 @ applied" "pending ex fs = applied @ rest" "\<forall>n. r = Inr n \<longrightarrow> rest = []"
        by blast
      with rd p have "reads s' = reads s @ (f # applied) \<and> pending ex (f # fs) = (f # applied) @ rest
          \<and> (\<forall>n. r = Inr n \<longrightarrow> rest = [])"
        by simp
      then show ?thesis by blast
    qed
  qed
qed

lemma initialize_frame:
  assumes "initialize e s = (r, s')"
  shows "rows s' = rows s \<and> reads s' = reads s \<and> written s' = written s \<and> mkdirs s' = mkdirs s
     \<and> closes s' = closes s \<and> clock_reads s' = clock_reads s \<and> connects s' = connects s + 1"
  using assms
  by (auto simp: initialize_def createMigrationsTable_def dbConnection_query_def Let_def
      split: option.splits)

lemma getExecutedMigrations_frame:
  assumes "getExecutedMigrations e s = (r, s')"
  shows "rows s' = rows s \<and> reads s' = reads s \<and> written s' = written s \<and> mkdirs s' = mkdirs s
     \<and> closes s' = closes s \<and> clock_reads s' = clock_reads s \<and> connects s' = connects s
     \<and> (\<forall>ex. r = Inr ex \<longrightarrow> ex = map version (rows s))"
  using assms
  by (auto simp: getExecutedMigrations_def Let_def split: option.splits)

lemma getMigrationFiles_frame:
  assumes "getMigrationFiles e s = (r, s')"
  shows "rows s' = rows s \<and> reads s' = reads s \<and> written s' = written s \<and> queries s' = queries s
     \<and> closes s' = closes s \<and> clock_reads s' = clock_reads s \<and> connects s' = connects s"
  using assms
  by (auto simp: getMigrationFiles_def Let_def split: option.splits sum.splits)

lemma migrate_try_closes:
  assumes "migrate_try e s = (r, s')"
  shows "closes s' = closes s"
proof -
  obtain r1 s1 where i: "initialize e s = (r1, s1)" by (cases "initialize e s")
  obtain r2 s2 where g: "getExecutedMigrations e s1 = (r2, s2)"
    by (cases "getExecutedMigrations e s1")
  obtain r3 s3 where l: "getMigrationFiles e s2 = (r3, s3)" by (cases "getMigrationFiles e s2")
  note fr = initialize_frame[OF i] getExecutedMigrations_frame[OF g] getMigrationFiles_frame[OF l]
  show ?thesis
  proof (cases r1)
    case (Inl err)
    with assms i fr show ?thesis by (simp add: migrate_try_def)
  next
    case r1: (Inr u)
    show ?thesis
    proof (cases r2)
      case (Inl err)
      with assms i g r1 fr show ?thesis by (simp add: migrate_try_def)
    next
      case r2: (Inr ex)
      show ?thesis
      proof (cases r3)
        case (Inl err)
        with assms i g l r1 r2 fr show ?thesis by (simp add: migrate_try_def)
      next
        case (Inr fs)
        with assms i g l r1 r2 have "migrate_loop e ex fs 0 s3 = (r, s')"
          by (simp add: migrate_try_def)
        from migrate_loop_frame[OF this] fr show ?thesis by simp
      qed
    qed
  qed
qed

section \<open>Release of the connection\<close>

text \<open>
  Claim C6. On every exit path of a run of \<open>migrate\<close> (completion, failure of the
  initialisation, of the listing, of a read or of a statement) the connection is closed
  exactly once: whatever the collaborators answer, the run ends with one more call of
  \<open>dbConnection.close\<close> than it started with. The call is the \<open>finally\<close> block, which
  runs before the outcome reaches the caller.
\<close>

theorem connection_released_once:
  "closes (snd (migrate e s)) = closes s + 1"
proof -
  obtain r s1 where t: "migrate_try e s = (r, s1)" by (cases "migrate_try e s")
  from migrate_try_closes[OF t] have "closes s1 = closes s" .
  with t show ?thesis
    by (simp add: migrate_def dbConnection_close_def split: option.splits)
qed

section \<open>Entering and leaving the loop\<close>

lemma migrate_try_entered:
  assumes "connect_error e = None" "query_error e (queries s) CreateTable = None"
    "query_error e (queries s @ [CreateTable]) SelectVersions = None"
  shows "migrate_try e s =
     (case getMigrationFiles e (entered s) of
        (Inl err, s') \<Rightarrow> (Inl err, s')
      | (Inr fs, s') \<Rightarrow> migrate_loop e (map version (rows s)) fs 0 s')"
  using assms
  by (simp add: migrate_try_def initialize_def createMigrationsTable_def dbConnection_query_def
      getExecutedMigrations_def entered_def Let_def)

lemma migrate_closing:
  assumes "migrate_try e s = (r, s1)" "close_error e = None"
  shows "migrate e s = (r, s1\<lparr>closes := closes s1 + 1\<rparr>)"
  using assms by (simp add: migrate_def dbConnection_close_def)

lemma runMigration_statement_failure:
  assumes "readFile e f = Inr sqlContent"
    and "run_statements e (statements_of sqlContent)
           (s\<lparr>clock_reads := clock_reads s + 1, reads := reads s @ [f]\<rparr>) = (Inl err, s')"
  shows "runMigration e f v n s = (Inl err, s')"
  using assms by (simp add: runMigration_def Date_now_def)

section \<open>A listing that fails\<close>

text \<open>
  Claim C10, as amended. Whatever error the listing of the migrations directory fails
  with, \<open>getMigrationFiles\<close> calls \<open>mkdir\<close>; when \<open>mkdir\<close> does not reject, it returns the
  empty list, and the run of \<open>migrate\<close> then completes with no script found and none
  applied: the error of the listing reaches nobody. The initialisation, the query for the
  executed versions and the closing are those of a run in which nothing else fails.
\<close>

theorem listing_failure_swallowed:
  assumes "readdir e = Inl err" and "mkdir_error e = None"
    and "connect_error e = None" and "query_error e (queries s) CreateTable = None"
    and "query_error e (queries s @ [CreateTable]) SelectVersions = None"
    and "close_error e = None"
  shows "getMigrationFiles e s = (Inr [], s\<lparr>mkdirs := mkdirs s + 1\<rparr>)
     \<and> migrate e s = (Inr 0, (entered s)\<lparr>mkdirs := mkdirs s + 1, closes := closes s + 1\<rparr>)"
proof -
  from assms(1,2) have g: "\<And>s. getMigrationFiles e s = (Inr [], s\<lparr>mkdirs := mkdirs s + 1\<rparr>)"
    by (simp add: getMigrationFiles_def)
  from migrate_try_entered[OF assms(3,4,5)] g
  have "migrate_try e s = (Inr 0, (entered s)\<lparr>mkdirs := mkdirs (entered s) + 1\<rparr>)" by simp
  from migrate_closing[OF this assms(6)] g show ?thesis by (simp add: entered_def)
qed

text \<open>The run against a directory whose listing is refused for lack of permission.\<close>

theorem listing_failure_swallowed_witness:
  "getMigrationFiles env_unreadable state0 = (Inr [], state0\<lparr>mkdirs := 1\<rparr>)
   \<and> fst (migrate env_unreadable state0) = Inr 0
   \<and> rows (snd (migrate env_unreadable state0)) = []
   \<and> reads (snd (migrate env_unreadable state0)) = []"
  using listing_failure_swallowed[of env_unreadable "FsError ''EACCES''" state0]
  by (simp add: env_unreadable_def env_of_def state0_def entered_def)

text \<open>
  The claim as stated fails: not every failure of the listing ends in an empty list and
  a completed run. Where the migrations path is a regular file, the listing fails,
  \<open>mkdir\<close> rejects as well, and its error ends \<open>getMigrationFiles\<close> and the run.
\<close>

theorem listing_failure_counterexample:
  "readdir env_not_a_directory = Inl (FsError ''ENOTDIR'')
   \<and> fst (getMigrationFiles env_not_a_directory state0) = Inl (FsError ''EEXIST'')
   \<and> fst (migrate env_not_a_directory state0) = Inl (FsError ''EEXIST'')"
  by code_simp

section \<open>The entry recorded for a script\<close>

text \<open>
  Claim C2, as amended. For a script that is read, whose statements are all accepted and
  whose insert is accepted (its version not yet in the table), \<open>runMigration\<close> succeeds
  and appends one row holding the version, the name and the time elapsed between the two
  readings of the clock in milliseconds; the \<open>checksum\<close> of the row is null, since the
  insert does not name that column and no hash of the content is computed.
\<close>

theorem recorded_entry:
  assumes "readFile e f = Inr sqlContent"
    and "run_statements e (statements_of sqlContent)
           (s\<lparr>clock_reads := clock_reads s + 1, reads := reads s @ [f]\<rparr>) = (Inr (), s2)"
    and "query_error e (queries s2)
           (InsertMigration v n (date_now e (clock_reads s + 1) - date_now e (clock_reads s))) = None"
    and "v \<notin> set (map version (rows s))"
  shows "fst (runMigration e f v n s) = Inr ()
     \<and> rows (snd (runMigration e f v n s)) =
         rows s @ [\<lparr>version = v, name = n, checksum = None,
                    execution_time = date_now e (clock_reads s + 1) - date_now e (clock_reads s)\<rparr>]"
proof -
  note f2 = run_statements_frame[OF assms(2)]
  from f2 have c: "clock_reads s2 = clock_reads s + 1" and r: "rows s2 = rows s" by simp_all
  from assms c r show ?thesis
    by (simp add: runMigration_def Date_now_def dbConnection_query_def Let_def)
qed

text \<open>The first of the three scripts, applied to the empty table.\<close>

theorem recorded_entry_witness:
  "fst (runMigration env_three ''20240101000000_a.sql'' ''20240101000000_a'' ''20240101000000 a'' state0) = Inr ()
   \<and> rows (snd (runMigration env_three ''20240101000000_a.sql'' ''20240101000000_a'' ''20240101000000 a'' state0))
       = [\<lparr>version = ''20240101000000_a'', name = ''20240101000000 a'', checksum = None, execution_time = 7\<rparr>]"
proof -
  let ?a = "''20240101000000_a.sql''"
  let ?body = "''CREATE TABLE a (id INT); INSERT INTO a VALUES (1);''"
  let ?s1 = "state0\<lparr>clock_reads := clock_reads state0 + 1, reads := reads state0 @ [?a]\<rparr>"
  let ?s2 = "snd (run_statements env_three (statements_of ?body) ?s1)"
  have h1: "readFile env_three ?a = Inr ?body" by code_simp
  have h2: "run_statements env_three (statements_of ?body) ?s1 = (Inr (), ?s2)" by code_simp
  have h3: "query_error env_three (queries ?s2)
      (InsertMigration ''20240101000000_a'' ''20240101000000 a''
         (date_now env_three (clock_reads state0 + 1) - date_now env_three (clock_reads state0))) = None"
    by code_simp
  have h4: "''20240101000000_a'' \<notin> set (map version (rows state0))" by code_simp
  have t: "date_now env_three (clock_reads state0 + 1) - date_now env_three (clock_reads state0) = 7"
    by code_simp
  have r0: "rows state0 = []" by (simp add: state0_def)
  from recorded_entry[OF h1 h2 h3 h4] t r0 show ?thesis by simp
qed

text \<open>
  The claim as stated fails: after a run that applies three scripts, the checksum of
  each of the three rows is absent.
\<close>

theorem checksum_absent_counterexample:
  "fst (migrate env_three state0) = Inr 3
   \<and> map checksum (rows (snd (migrate env_three state0))) = [None, None, None]"
  by code_simp

section \<open>A statement that fails\<close>

text \<open>
  Claim C1, as amended. In a run that reaches the loop, let the scripts before \<open>f\<close> in the
  sorted list be completed, and let a statement of the pending script \<open>f\<close> be rejected with
  \<open>err\<close>. Then the run ends at once with \<open>err\<close>, after closing the connection: the scripts
  read are the pending ones before \<open>f\<close> and \<open>f\<close> itself, so no later script is read or
  executed; the table holds, after its old rows, one row for each pending script before
  \<open>f\<close> and none for \<open>f\<close>; every query sent since \<open>f\<close> was started is a statement of \<open>f\<close>;
  and the error that reaches the caller is the very error the database gave for that
  statement. It is not wrapped: the version and the name of the script are not part of it.
\<close>

theorem failure_aborts_run:
  assumes "connect_error e = None"
    and "query_error e (queries s) CreateTable = None"
    and "query_error e (queries s @ [CreateTable]) SelectVersions = None"
    and "readdir e = Inr listing"
    and "sort (filter (\<lambda>file. endsWith file ''.sql'') listing) = before @ f # later"
    and "migrate_loop e (map version (rows s)) before 0 (entered s) = (Inr k, s1)"
    and "version_of f \<notin> set (map version (rows s))"
    and "readFile e f = Inr sqlContent"
    and "run_statements e (statements_of sqlContent)
           (s1\<lparr>clock_reads := clock_reads s1 + 1, reads := reads s1 @ [f]\<rparr>) = (Inl err, s2)"
    and "close_error e = None"
  shows "migrate e s = (Inl err, s2\<lparr>closes := closes s2 + 1\<rparr>)
     \<and> reads s2 = reads s @ pending (map version (rows s)) before @ [f]
     \<and> (\<exists>new. rows s2 = rows s @ new
          \<and> list_all2 (\<lambda>r g. version r = version_of g \<and> name r = name_of g \<and> checksum r = None)
               new (pending (map version (rows s)) before))
     \<and> (\<exists>sent. queries s2 = queries s1 @ map Statement sent
          \<and> set sent \<subseteq> set (statements_of sqlContent))
     \<and> (\<exists>st h. st \<in> set (statements_of sqlContent) \<and> query_error e h (Statement st) = Some err)"
proof -
  let ?ex = "map version (rows s)"
  let ?s1' = "s1\<lparr>clock_reads := clock_reads s1 + 1, reads := reads s1 @ [f]\<rparr>"
  have files: "getMigrationFiles e (entered s) = (Inr (before @ f # later), entered s)"
    using assms(4,5) by (simp add: getMigrationFiles_def)
  have rm: "runMigration e f (version_of f) (name_of f) s1 = (Inl err, s2)"
    using runMigration_statement_failure[OF assms(8,9)] .
  have "migrate_loop e ?ex (before @ f # later) 0 (entered s) = (Inl err, s2)"
    using assms(6,7) rm by (simp add: migrate_loop_append)
  with migrate_try_entered[OF assms(1,2,3)] files
  have "migrate_try e s = (Inl err, s2)" by simp
  from migrate_closing[OF this assms(10)]
  have 1: "migrate e s = (Inl err, s2\<lparr>closes := closes s2 + 1\<rparr>)" .
  note compl = migrate_loop_completed[OF assms(6)]
  note fr = run_statements_frame[OF assms(9)]
  have 2: "reads s2 = reads s @ pending ?ex before @ [f]"
    using compl fr by (simp add: entered_def)
  from compl obtain new where new: "rows s1 = rows (entered s) @ new"
    "list_all2 (\<lambda>r g. version r = version_of g \<and> name r = name_of g \<and> checksum r = None)
       new (pending ?ex before)"
    by blast
  from new(1) fr have "rows s2 = rows s @ new" by (simp add: entered_def)
  with new(2) have 3: "\<exists>new. rows s2 = rows s @ new
      \<and> list_all2 (\<lambda>r g. version r = version_of g \<and> name r = name_of g \<and> checksum r = None)
           new (pending ?ex before)"
    by blast
  from run_statements_queries[OF assms(9)]
  have 4: "\<exists>sent. queries s2 = queries s1 @ map Statement sent
      \<and> set sent \<subseteq> set (statements_of sqlContent)"
    by simp
  note 5 = run_statements_error[OF assms(9)]
  from 1 2 3 4 5 show ?thesis by blast
qed

text \<open>Three pending scripts of which the second fails.\<close>

theorem failure_aborts_run_witness:
  "fst (migrate env_b_fails state0) = Inl (DbError ''syntax error'')
   \<and> map version (rows (snd (migrate env_b_fails state0))) = [''20240101000000_a'']
   \<and> reads (snd (migrate env_b_fails state0)) = [''20240101000000_a.sql'', ''20240102000000_b.sql'']"
proof -
  let ?a = "''20240101000000_a.sql''" and ?b = "''20240102000000_b.sql''"
  let ?c = "''20240103000000_c.sql''"
  let ?s1 = "snd (migrate_loop env_b_fails [] [?a] 0 (entered state0))"
  let ?body = "''CREATE TABLE b (id INT); BOOM; DROP TABLE a''"
  let ?s2 = "snd (run_statements env_b_fails (statements_of ?body)
                (?s1\<lparr>clock_reads := clock_reads ?s1 + 1, reads := reads ?s1 @ [?b]\<rparr>))"
  have h1: "connect_error env_b_fails = None" by code_simp
  have h2: "query_error env_b_fails (queries state0) CreateTable = None" by code_simp
  have h3: "query_error env_b_fails (queries state0 @ [CreateTable]) SelectVersions = None"
    by code_simp
  have h4: "readdir env_b_fails = Inr [?c, ?a, ?b]" by code_simp
  have h5: "sort (filter (\<lambda>file. endsWith file ''.sql'') [?c, ?a, ?b]) = [?a] @ ?b # [?c]"
    by code_simp
  have h6: "migrate_loop env_b_fails (map version (rows state0)) [?a] 0 (entered state0) = (Inr 1, ?s1)"
    by code_simp
  have h7: "version_of ?b \<notin> set (map version (rows state0))" by code_simp
  have h8: "readFile env_b_fails ?b = Inr ?body" by code_simp
  have h9: "run_statements env_b_fails (statements_of ?body)
      (?s1\<lparr>clock_reads := clock_reads ?s1 + 1, reads := reads ?s1 @ [?b]\<rparr>)
      = (Inl (DbError ''syntax error''), ?s2)"
    by code_simp
  have h10: "close_error env_b_fails = None" by code_simp
  from failure_aborts_run[OF h1 h2 h3 h4 h5 h6 h7 h8 h9 h10]
  have "migrate env_b_fails state0 = (Inl (DbError ''syntax error''), ?s2\<lparr>closes := closes ?s2 + 1\<rparr>)"
    by blast
  moreover have "map version (rows ?s2) = [''20240101000000_a'']" by code_simp
  moreover have "reads ?s2 = [?a, ?b]" by code_simp
  ultimately show ?thesis by simp
qed

text \<open>
  The claim as stated fails where it lets the error carry the version and the name of the
  failing script: two runs whose failing scripts differ in version and name end with the
  same error value.
\<close>

theorem failure_error_counterexample:
  "fst (migrate env_b_fails state0) = Inl (DbError ''syntax error'')
   \<and> fst (migrate env_x_fails state0) = Inl (DbError ''syntax error'')
   \<and> last (reads (snd (migrate env_b_fails state0))) = ''20240102000000_b.sql''
   \<and> last (reads (snd (migrate env_x_fails state0))) = ''20240102000000_x.sql''"
  by code_simp

section \<open>The shape of a run\<close>

lemma migrate_try_cases:
  assumes "migrate_try e s = (r, s')"
  obtains
    (init_failed) err where "initialize e s = (Inl err, s')" "r = Inl err"
  | (select_failed) s1 err where "initialize e s = (Inr (), s1)"
      "getExecutedMigrations e s1 = (Inl err, s')" "r = Inl err"
  | (listing_failed) s1 s2 err where "initialize e s = (Inr (), s1)"
      "getExecutedMigrations e s1 = (Inr (map version (rows s)), s2)"
      "getMigrationFiles e s2 = (Inl err, s')" "r = Inl err"
  | (looped) s1 s2 s3 fs where "initialize e s = (Inr (), s1)"
      "getExecutedMigrations e s1 = (Inr (map version (rows s)), s2)"
      "getMigrationFiles e s2 = (Inr fs, s3)"
      "migrate_loop e (map version (rows s)) fs 0 s3 = (r, s')"
proof -
  obtain r1 s1 where i: "initialize e s = (r1, s1)" by (cases "initialize e s")
  obtain r2 s2 where g: "getExecutedMigrations e s1 = (r2, s2)"
    by (cases "getExecutedMigrations e s1")
  obtain r3 s3 where l: "getMigrationFiles e s2 = (r3, s3)" by (cases "getMigrationFiles e s2")
  note fr = initialize_frame[OF i] getExecutedMigrations_frame[OF g]
  show thesis
  proof (cases r1)
    case (Inl err)
    with assms i show thesis by (intro init_failed[of err]) (simp_all add: migrate_try_def)
  next
    case r1: (Inr u)
    show thesis
    proof (cases r2)
      case (Inl err)
      with assms i g r1 show thesis
        by (intro select_failed[of s1 err]) (simp_all add: migrate_try_def)
    next
      case r2: (Inr ex)
      with fr have ex: "ex = map version (rows s)" by simp
      show thesis
      proof (cases r3)
        case (Inl err)
        with assms i g l r1 r2 ex show thesis
          by (intro listing_failed[of s1 s2 err]) (simp_all add: migrate_try_def)
      next
        case (Inr fs)
        with assms i g l r1 r2 ex show thesis
          by (intro looped[of s1 s2 fs s3]) (simp_all add: migrate_try_def)
      qed
    qed
  qed
qed

lemma getMigrationFiles_listed:
  assumes "getMigrationFiles e s = (Inr fs, s')"
  shows "fs = (case readdir e of
                 Inl _ \<Rightarrow> []
               | Inr listing \<Rightarrow> sort (filter (\<lambda>file. endsWith file ''.sql'') listing))"
  using assms by (auto simp: getMigrationFiles_def Let_def split: sum.splits option.splits)

lemma migrate_try_reads:
  assumes "migrate_try e s = (r, s')"
  shows "\<exists>applied rest. reads s' = reads s @ applied
     \<and> pending (map version (rows s))
         (case readdir e of
            Inl _ \<Rightarrow> []
          | Inr listing \<Rightarrow> sort (filter (\<lambda>file. endsWith file ''.sql'') listing)) = applied @ rest
     \<and> (\<forall>n. r = Inr n \<longrightarrow> rest = [])"
  using assms
proof (cases rule: migrate_try_cases)
  case (init_failed err)
  from initialize_frame[OF init_failed(1)] init_failed(2) show ?thesis by simp
next
  case (select_failed s1 err)
  from initialize_frame[OF select_failed(1)] getExecutedMigrations_frame[OF select_failed(2)]
    select_failed(3)
  show ?thesis by simp
next
  case (listing_failed s1 s2 err)
  from initialize_frame[OF listing_failed(1)] getExecutedMigrations_frame[OF listing_failed(2)]
    getMigrationFiles_frame[OF listing_failed(3)] listing_failed(4)
  show ?thesis by simp
next
  case (looped s1 s2 s3 fs)
  from initialize_frame[OF looped(1)] getExecutedMigrations_frame[OF looped(2)]
    getMigrationFiles_frame[OF looped(3)]
  have "reads s3 = reads s" by simp
  with migrate_loop_reads[OF looped(4)] getMigrationFiles_listed[OF looped(3)]
  show ?thesis by simp
qed

lemma migrate_reads:
  "\<exists>applied rest. reads (snd (migrate e s)) = reads s @ applied
     \<and> pending (map version (rows s))
         (case readdir e of
            Inl _ \<Rightarrow> []
          | Inr listing \<Rightarrow> sort (filter (\<lambda>file. endsWith file ''.sql'') listing)) = applied @ rest
     \<and> (\<forall>n. fst (migrate e s) = Inr n \<longrightarrow> rest = [])"
proof -
  obtain r s1 where t: "migrate_try e s = (r, s1)" by (cases "migrate_try e s")
  have "reads (snd (migrate e s)) = reads s1"
    using t by (simp add: migrate_def dbConnection_close_def split: option.splits)
  moreover have "\<And>n. fst (migrate e s) = Inr n \<Longrightarrow> r = Inr n"
    using t by (simp add: migrate_def dbConnection_close_def split: option.splits)
  ultimately show ?thesis using migrate_try_reads[OF t] by metis
qed

subsection \<open>Dependence on the environment\<close>

lemma dbConnection_query_cong:
  "query_error e' = query_error e \<Longrightarrow> dbConnection_query e' q s = dbConnection_query e q s"
  by (simp add: dbConnection_query_def)

lemma run_statements_cong:
  assumes "query_error e' = query_error e"
  shows "run_statements e' sts s = run_statements e sts s"
  by (induction sts arbitrary: s)
    (simp_all add: dbConnection_query_cong[OF assms] split: prod.splits sum.splits)

lemma runMigration_cong:
  assumes "query_error e' = query_error e" "date_now e' = date_now e" "readFile e' f = readFile e f"
  shows "runMigration e' f v n s = runMigration e f v n s"
  using assms
  by (simp add: runMigration_def Date_now_def Let_def run_statements_cong[OF assms(1)]
      dbConnection_query_cong[OF assms(1)] split: prod.splits sum.splits)

lemma migrate_loop_cong:
  assumes "query_error e' = query_error e" "date_now e' = date_now e"
    and "\<And>f. f \<in> set fs \<Longrightarrow> version_of f \<notin> set ex \<Longrightarrow> readFile e' f = readFile e f"
  shows "migrate_loop e' ex fs c s = migrate_loop e ex fs c s"
  using assms(3)
proof (induction fs arbitrary: c s)
  case Nil
  show ?case by simp
next
  case (Cons f fs)
  have ih: "\<And>c s. migrate_loop e' ex fs c s = migrate_loop e ex fs c s"
    using Cons by simp
  show ?case
  proof (cases "version_of f \<in> set ex")
    case True
    then show ?thesis by (simp add: ih)
  next
    case False
    with Cons.prems have "readFile e' f = readFile e f" by simp
    from runMigration_cong[OF assms(1,2) this] False show ?thesis
      by (simp add: ih split: prod.splits sum.splits)
  qed
qed

lemma migrate_cong:
  assumes "connect_error e' = connect_error e" "query_error e' = query_error e"
    and "close_error e' = close_error e" "date_now e' = date_now e"
    and "\<And>t. getMigrationFiles e' t = getMigrationFiles e t"
    and "\<And>f. version_of f \<notin> set (map version (rows s)) \<Longrightarrow> readFile e' f = readFile e f"
  shows "migrate e' s = migrate e s"
proof -
  have i: "initialize e' s = initialize e s"
    using assms(1,2)
    by (simp add: initialize_def createMigrationsTable_def dbConnection_query_def Let_def
        split: option.splits)
  have g: "\<And>t. getExecutedMigrations e' t = getExecutedMigrations e t"
    using assms(2) by (simp add: getExecutedMigrations_def)
  have l: "\<And>fs c t. migrate_loop e' (map version (rows s)) fs c t
      = migrate_loop e (map version (rows s)) fs c t"
    by (rule migrate_loop_cong[OF assms(2,4)]) (rule assms(6), assumption)
  have "migrate_try e' s = migrate_try e s"
  proof -
    obtain r1 s1 where i1: "initialize e s = (r1, s1)" by (cases "initialize e s")
    obtain r2 s2 where g1: "getExecutedMigrations e s1 = (r2, s2)"
      by (cases "getExecutedMigrations e s1")
    note fr = initialize_frame[OF i1] getExecutedMigrations_frame[OF g1]
    show ?thesis
    proof (cases r1)
      case (Inl err)
      with i i1 show ?thesis by (simp add: migrate_try_def)
    next
      case r1: (Inr u)
      show ?thesis
      proof (cases r2)
        case (Inl err)
        with i i1 g g1 r1 show ?thesis by (simp add: migrate_try_def)
      next
        case (Inr ex)
        with fr have "ex = map version (rows s)" by simp
        with i i1 g g1 r1 Inr l assms(5) show ?thesis
          by (simp add: migrate_try_def split: prod.splits sum.splits)
      qed
    qed
  qed
  with assms(3) show ?thesis by (simp add: migrate_def dbConnection_close_def)
qed

section \<open>The order of application\<close>

lemma sort_filter_mset:
  assumes "mset xs = mset ys"
  shows "sort (filter P xs) = sort (filter P (ys :: string list))"
proof -
  from assms have "mset (filter P xs) = mset (filter P ys)" by (metis mset_filter)
  then have "mset (sort (filter P ys)) = mset (filter P xs)" by simp
  from properties_for_sort[OF this] show ?thesis by simp
qed

text \<open>
  Claim C3, as amended. Whatever order the file system lists the directory in, a run does
  the same: two listings with the same entries give the same run. The scripts a run reads
  are, in order, an initial segment of the pending script files sorted ascending by file
  name (the suffix included, in the code-unit order of strings), and all of them when the
  run completes. For the files \<open>20240101000000_a\<close>, \<open>20240103000000_c\<close> and
  \<open>20240102000000_b\<close> that order is a, b, c.
\<close>

theorem applied_in_file_name_order:
  assumes "readdir e = Inr listing" and "mset listing' = mset listing"
  shows "migrate (e\<lparr>readdir := Inr listing'\<rparr>) s = migrate e s
     \<and> sorted (pending (map version (rows s)) (sort (filter (\<lambda>file. endsWith file ''.sql'') listing)))
     \<and> (\<exists>applied rest. reads (snd (migrate e s)) = reads s @ applied
          \<and> pending (map version (rows s))
              (sort (filter (\<lambda>file. endsWith file ''.sql'') listing)) = applied @ rest
          \<and> (\<forall>n. fst (migrate e s) = Inr n \<longrightarrow> rest = []))"
proof -
  have "\<And>t. getMigrationFiles (e\<lparr>readdir := Inr listing'\<rparr>) t = getMigrationFiles e t"
    using assms sort_filter_mset[OF assms(2)] by (simp add: getMigrationFiles_def)
  then have 1: "migrate (e\<lparr>readdir := Inr listing'\<rparr>) s = migrate e s"
    by (intro migrate_cong) simp_all
  have 2: "sorted (pending (map version (rows s))
      (sort (filter (\<lambda>file. endsWith file ''.sql'') listing)))"
    unfolding pending_def by (rule sorted_wrt_filter) simp
  from migrate_reads[of e s] assms(1) 1 2 show ?thesis by simp
qed

text \<open>The three scripts of the example, listed in two different orders.\<close>

theorem applied_in_file_name_order_witness:
  "migrate (env_three\<lparr>readdir := Inr [''20240102000000_b.sql'', ''README.md'',
       ''20240103000000_c.sql'', ''20240101000000_a.sql'']\<rparr>) state0 = migrate env_three state0
   \<and> reads (snd (migrate env_three state0)) =
       [''20240101000000_a.sql'', ''20240102000000_b.sql'', ''20240103000000_c.sql'']"
proof -
  let ?l = "[''20240101000000_a.sql'', ''20240103000000_c.sql'', ''README.md'', ''20240102000000_b.sql'']"
  let ?l' = "[''20240102000000_b.sql'', ''README.md'', ''20240103000000_c.sql'', ''20240101000000_a.sql'']"
  have h1: "readdir env_three = Inr ?l" by code_simp
  have h2: "mset ?l' = mset ?l" by simp
  have r: "reads (snd (migrate env_three state0)) =
       [''20240101000000_a.sql'', ''20240102000000_b.sql'', ''20240103000000_c.sql'']"
    by code_simp
  from applied_in_file_name_order[OF h1 h2, of state0] r show ?thesis by blast
qed

text \<open>
  The claim as stated fails: the order is that of the file names, not of the versions.
  A hyphen sorts before the dot of the suffix, so \<open>v1-fix.sql\<close> is applied before
  \<open>v1.sql\<close>, although the version \<open>v1\<close> is below the version \<open>v1-fix\<close>.
\<close>

theorem version_order_counterexample:
  "fst (migrate env_dash state0) = Inr 2
   \<and> map version (rows (snd (migrate env_dash state0))) = [''v1-fix'', ''v1'']
   \<and> (''v1'' :: string) < ''v1-fix''"
  by code_simp

section \<open>Running twice\<close>

lemma migrate_loop_all_skipped:
  assumes "\<And>f. f \<in> set fs \<Longrightarrow> version_of f \<in> set ex"
  shows "migrate_loop e ex fs c s = (Inr c, s)"
  using assms by (induction fs) simp_all

lemma migrate_close_frame:
  assumes "migrate_try e s = (r, s1)"
  shows "rows (snd (migrate e s)) = rows s1 \<and> reads (snd (migrate e s)) = reads s1
     \<and> (fst (migrate e s) = r \<or> (\<exists>err. fst (migrate e s) = Inl err))
     \<and> (close_error e = None \<longrightarrow> fst (migrate e s) = r)"
  using assms by (simp add: migrate_def dbConnection_close_def split: option.splits)

lemma completed_run_records_all:
  assumes "migrate e s = (Inr n, s1)"
  shows "\<exists>fs t t'. getMigrationFiles e t = (Inr fs, t')
     \<and> (\<forall>f\<in>set fs. version_of f \<in> set (map version (rows s1)))"
proof -
  obtain r s' where t: "migrate_try e s = (r, s')" by (cases "migrate_try e s")
  from migrate_close_frame[OF t] assms have r: "r = Inr n" and rows: "rows s1 = rows s'"
    by auto
  from t r show ?thesis
  proof (cases rule: migrate_try_cases)
    case (looped t1 t2 t3 fs)
    from initialize_frame[OF looped(1)] getExecutedMigrations_frame[OF looped(2)]
      getMigrationFiles_frame[OF looped(3)]
    have r3: "rows t3 = rows s" by simp
    from looped(4) r have "migrate_loop e (map version (rows s)) fs 0 t3 = (Inr n, s')" by simp
    from migrate_loop_completed[OF this] r3 obtain new where
      new: "rows s' = rows s @ new"
        "list_all2 (\<lambda>r f. version r = version_of f \<and> name r = name_of f \<and> checksum r = None)
           new (pending (map version (rows s)) fs)"
      by auto
    have "version_of f \<in> set (map version (rows s1))" if "f \<in> set fs" for f
    proof (cases "version_of f \<in> set (map version (rows s))")
      case True
      with rows new(1) show ?thesis by auto
    next
      case False
      with that have "f \<in> set (pending (map version (rows s)) fs)" by (simp add: pending_def)
      then obtain i where i: "i < length (pending (map version (rows s)) fs)"
        "pending (map version (rows s)) fs ! i = f"
        by (auto simp: in_set_conv_nth)
      from list_all2_lengthD[OF new(2)] i(1) have il: "i < length new" by simp
      from list_all2_nthD[OF new(2) il] i(2) have "version (new ! i) = version_of f" by simp
      with il have "version_of f \<in> set (map version new)"
        by (metis image_eqI nth_mem set_map)
      with rows new(1) show ?thesis by auto
    qed
    with looped(3) show ?thesis by blast
  qed simp_all
qed

lemma second_try:
  assumes "migrate e s = (Inr n, s1)" and "readdir e' = readdir e"
    and "migrate_try e' s1 = (r, s2)"
  shows "rows s2 = rows s1 \<and> reads s2 = reads s1 \<and> (\<forall>m. r = Inr m \<longrightarrow> m = 0)"
  using assms(3)
proof (cases rule: migrate_try_cases)
  case (init_failed err)
  from initialize_frame[OF init_failed(1)] init_failed(2) show ?thesis by simp
next
  case (select_failed t1 err)
  from initialize_frame[OF select_failed(1)] getExecutedMigrations_frame[OF select_failed(2)]
    select_failed(3)
  show ?thesis by simp
next
  case (listing_failed t1 t2 err)
  from initialize_frame[OF listing_failed(1)] getExecutedMigrations_frame[OF listing_failed(2)]
    getMigrationFiles_frame[OF listing_failed(3)] listing_failed(4)
  show ?thesis by simp
next
  case (looped t1 t2 t3 fs')
  from completed_run_records_all[OF assms(1)] obtain fs t t' where
    fs: "getMigrationFiles e t = (Inr fs, t')"
      "\<forall>f\<in>set fs. version_of f \<in> set (map version (rows s1))"
    by blast
  from getMigrationFiles_listed[OF fs(1)] getMigrationFiles_listed[OF looped(3)] assms(2)
  have "fs' = fs" by simp
  with fs(2) have "migrate_loop e' (map version (rows s1)) fs' 0 t3 = (Inr 0, t3)"
    by (intro migrate_loop_all_skipped) simp
  with looped(4) have "r = Inr 0" "s2 = t3" by simp_all
  with initialize_frame[OF looped(1)] getExecutedMigrations_frame[OF looped(2)]
    getMigrationFiles_frame[OF looped(3)]
  show ?thesis by simp
qed

lemma getMigrationFiles_total:
  assumes "mkdir_error e = None"
  shows "\<exists>fs t'. getMigrationFiles e t = (Inr fs, t')"
  using assms by (simp add: getMigrationFiles_def Let_def split: sum.splits)

lemma second_try_completes:
  assumes "migrate e s = (Inr n, s1)" and "readdir e' = readdir e"
    and "connect_error e' = None" and "query_error e' (queries s1) CreateTable = None"
    and "query_error e' (queries s1 @ [CreateTable]) SelectVersions = None"
    and "mkdir_error e' = None"
  shows "fst (migrate_try e' s1) = Inr 0"
proof -
  from getMigrationFiles_total[OF assms(6)] obtain fs t' where
    g: "getMigrationFiles e' (entered s1) = (Inr fs, t')" by blast
  obtain r s2 where l: "migrate_loop e' (map version (rows s1)) fs 0 t' = (r, s2)"
    by (cases "migrate_loop e' (map version (rows s1)) fs 0 t'")
  from migrate_try_entered[OF assms(3,4,5)] g l have t: "migrate_try e' s1 = (r, s2)" by simp
  have "\<exists>m. r = Inr m"
  proof -
    from completed_run_records_all[OF assms(1)] obtain fs0 t0 t0' where
      fs0: "getMigrationFiles e t0 = (Inr fs0, t0')"
        "\<forall>f\<in>set fs0. version_of f \<in> set (map version (rows s1))"
      by blast
    from getMigrationFiles_listed[OF fs0(1)] getMigrationFiles_listed[OF g] assms(2)
    have "fs = fs0" by simp
    with fs0(2) have "migrate_loop e' (map version (rows s1)) fs 0 t' = (Inr 0, t')"
      by (intro migrate_loop_all_skipped) simp
    with l show ?thesis by auto
  qed
  with second_try[OF assms(1,2) t] t show ?thesis by auto
qed

text \<open>
  Claim C4. After a run of \<open>migrate\<close> that completed, a second run against the same
  listing applies no script: it reads no script file and leaves the rows of the table as
  the first run left them; if it completes, its count of applied scripts is zero, and it
  does complete with zero when its connection, its two queries, the directory and the
  closing do not fail.
\<close>

theorem second_run_applies_nothing:
  assumes "migrate e s = (Inr n, s1)" and "readdir e' = readdir e"
  shows "rows (snd (migrate e' s1)) = rows s1
     \<and> reads (snd (migrate e' s1)) = reads s1
     \<and> (\<forall>m. fst (migrate e' s1) = Inr m \<longrightarrow> m = 0)
     \<and> (connect_error e' = None \<and> query_error e' (queries s1) CreateTable = None
          \<and> query_error e' (queries s1 @ [CreateTable]) SelectVersions = None
          \<and> mkdir_error e' = None \<and> close_error e' = None
        \<longrightarrow> fst (migrate e' s1) = Inr 0)"
proof -
  obtain r s2 where t: "migrate_try e' s1 = (r, s2)" by (cases "migrate_try e' s1")
  note st = second_try[OF assms t]
  note cf = migrate_close_frame[OF t]
  have 1: "rows (snd (migrate e' s1)) = rows s1" using st cf by simp
  have 2: "reads (snd (migrate e' s1)) = reads s1" using st cf by simp
  have 3: "\<forall>m. fst (migrate e' s1) = Inr m \<longrightarrow> m = 0" using st cf by auto
  have 4: "fst (migrate e' s1) = Inr 0"
    if "connect_error e' = None" "query_error e' (queries s1) CreateTable = None"
      "query_error e' (queries s1 @ [CreateTable]) SelectVersions = None"
      "mkdir_error e' = None" "close_error e' = None"
    using second_try_completes[OF assms that(1-4)] t cf that(5) by simp
  from 1 2 3 4 show ?thesis by blast
qed

text \<open>Two runs in succession over the three scripts.\<close>

theorem second_run_applies_nothing_witness:
  "fst (migrate env_three state0) = Inr 3
   \<and> fst (migrate env_three (snd (migrate env_three state0))) = Inr 0
   \<and> rows (snd (migrate env_three (snd (migrate env_three state0))))
       = rows (snd (migrate env_three state0))
   \<and> reads (snd (migrate env_three (snd (migrate env_three state0))))
       = reads (snd (migrate env_three state0))"
proof -
  let ?s1 = "snd (migrate env_three state0)"
  have h1: "migrate env_three state0 = (Inr 3, ?s1)" by code_simp
  have h2: "readdir env_three = readdir env_three" by simp
  have ok: "connect_error env_three = None \<and> query_error env_three (queries ?s1) CreateTable = None
      \<and> query_error env_three (queries ?s1 @ [CreateTable]) SelectVersions = None
      \<and> mkdir_error env_three = None \<and> close_error env_three = None"
    by (simp add: env_three_def env_of_def)
  have f1: "fst (migrate env_three state0) = Inr 3" by code_simp
  from second_run_applies_nothing[OF h1 h2] ok f1 show ?thesis by blast
qed

section \<open>Versions already in the table\<close>

text \<open>
  Claim C5. A script file whose version is in the table when the run starts is skipped:
  the run never reads it, so none of its statements is executed again, and the run is the
  same whatever the file now contains.
\<close>

theorem applied_version_not_rerun:
  assumes "version_of f \<in> set (map version (rows s))"
  shows "migrate (e\<lparr>readFile := (readFile e)(f := c)\<rparr>) s = migrate e s
     \<and> (\<exists>applied. reads (snd (migrate e s)) = reads s @ applied \<and> f \<notin> set applied)"
proof -
  have 1: "migrate (e\<lparr>readFile := (readFile e)(f := c)\<rparr>) s = migrate e s"
  proof (rule migrate_cong)
    fix g assume "version_of g \<notin> set (map version (rows s))"
    with assms have "g \<noteq> f" by auto
    then show "readFile (e\<lparr>readFile := (readFile e)(f := c)\<rparr>) g = readFile e g" by simp
  qed (simp_all add: getMigrationFiles_def Let_def split: sum.splits)
  from migrate_reads[of e s] obtain applied rest where
    a: "reads (snd (migrate e s)) = reads s @ applied"
      "pending (map version (rows s))
         (case readdir e of
            Inl _ \<Rightarrow> []
          | Inr listing \<Rightarrow> sort (filter (\<lambda>file. endsWith file ''.sql'') listing)) = applied @ rest"
    by blast
  have "f \<notin> set (applied @ rest)"
    unfolding a(2)[symmetric] using assms by (simp add: pending_def)
  with a(1) have 2: "\<exists>applied. reads (snd (migrate e s)) = reads s @ applied \<and> f \<notin> set applied"
    by auto
  from 1 2 show ?thesis ..
qed

text \<open>
  The first script is recorded and its file now holds another statement; the run reads
  the two other scripts only.
\<close>

theorem applied_version_not_rerun_witness:
  "migrate (env_three\<lparr>readFile := (readFile env_three)
        (''20240101000000_a.sql'' := Inr ''DROP TABLE a;'')\<rparr>) state_a_applied
     = migrate env_three state_a_applied
   \<and> reads (snd (migrate env_three state_a_applied))
       = [''20240102000000_b.sql'', ''20240103000000_c.sql'']"
proof -
  have h: "version_of ''20240101000000_a.sql'' \<in> set (map version (rows state_a_applied))"
    by code_simp
  have r: "reads (snd (migrate env_three state_a_applied))
       = [''20240102000000_b.sql'', ''20240103000000_c.sql'']"
    by code_simp
  from applied_version_not_rerun[OF h, of env_three "Inr ''DROP TABLE a;''"] r
  show ?thesis by blast
qed

section \<open>The command line\<close>

text \<open>
  Claim C7. The claim asks for a non-zero exit code when the run started by the
  \<open>migrate\<close> command fails, and when the \<open>create\<close> command has no name. The second
  holds. The first does not: with a database that refuses the connection the run fails,
  the rejection is handled by \<open>.catch(console.error)\<close>, and the exit code stays 0.
\<close>

theorem cli_exit_code_on_failure:
  "fst (migrate env_down state0) = Inl (DbError ''ECONNREFUSED'')
   \<and> fst (cli (Some ''migrate'') None env_down state0) = 0
   \<and> fst (cli (Some ''create'') None env_down state0) = 1"
  by code_simp

section \<open>Version and name of a file\<close>

text \<open>
  Claim C8. The claim asks for the version to be the file name without its extension,
  also for a name with the suffix string in the middle. \<open>replace('.sql', '')\<close> removes the
  first occurrence, not the last: the file \<open>a.sqlb.sql\<close> passes the suffix filter and
  gets the version \<open>ab.sql\<close>, not \<open>a.sqlb\<close>.
\<close>

theorem version_of_inner_suffix:
  "endsWith ''a.sqlb.sql'' ''.sql''
   \<and> version_of ''a.sqlb.sql'' = ''ab.sql''
   \<and> name_of ''a.sqlb.sql'' = ''ab.sql''"
  by code_simp

section \<open>Authoring\<close>

lemma is_digit_digit_char: "d < 10 \<Longrightarrow> is_digit (digit_char d)"
  unfolding is_digit_def digit_char_def by (rule nth_mem) simp

lemma pad_digits: "filter is_digit (pad k n) = pad k n"
  by (induction k arbitrary: n) (simp_all add: is_digit_digit_char)

lemma length_pad: "length (pad k n) = k"
  by (induction k arbitrary: n) simp_all

lemma pad_all_digits: "c \<in> set (pad k n) \<Longrightarrow> is_digit c"
  using pad_digits[of k n] unfolding filter_id_conv by blast

lemma timestamp_of_eq:
  assumes "year t \<le> 9999"
  shows "timestamp_of t = pad 4 (year t) @ pad 2 (month t) @ pad 2 (day t)
     @ pad 2 (hours t) @ pad 2 (minutes t) @ pad 2 (seconds t)"
proof -
  have nd: "\<not> is_digit CHR ''-''" "\<not> is_digit CHR ''T''" "\<not> is_digit CHR '':''"
    "\<not> is_digit CHR ''.''" "\<not> is_digit CHR ''Z''"
    by (simp_all add: is_digit_def)
  have "filter is_digit (toISOString t) = (pad 4 (year t) @ pad 2 (month t) @ pad 2 (day t)
     @ pad 2 (hours t) @ pad 2 (minutes t) @ pad 2 (seconds t)) @ pad 3 (millis t)"
    using assms by (simp add: toISOString_def pad_digits nd)
  then show ?thesis by (simp add: timestamp_of_def length_pad)
qed

lemma set_spaces_to_underscore:
  "set (spaces_to_underscore nm) \<subseteq> insert CHR ''_'' (set nm)"
proof (induction nm rule: spaces_to_underscore.induct)
  case 1
  show ?case by simp
next
  case (2 c cs)
  have "set (dropWhile is_space cs) \<subseteq> set cs" by (auto dest: set_dropWhileD)
  with "2" show ?case by auto
qed

lemma round_trip_exact:
  "single_spaced nm \<Longrightarrow> CHR ''_'' \<notin> set nm \<Longrightarrow>
     underscores_to_spaces (spaces_to_underscore nm) = nm"
proof (induction nm rule: spaces_to_underscore.induct)
  case 1
  show ?case by (simp add: underscores_to_spaces_def)
next
  case (2 c cs)
  show ?case
  proof (cases "is_space c")
    case False
    with "2" show ?thesis by (auto simp: underscores_to_spaces_def)
  next
    case True
    with "2.prems" have c: "c = CHR '' ''" and ss: "single_spaced cs"
      and hd: "case cs of [] \<Rightarrow> True | d # _ \<Rightarrow> \<not> is_space d"
      by simp_all
    from hd have dw: "dropWhile is_space cs = cs" by (cases cs) simp_all
    from "2.IH"(1)[OF True] dw ss "2.prems"(2)
    have "underscores_to_spaces (spaces_to_underscore cs) = cs" by simp
    with True c dw show ?thesis by (simp add: underscores_to_spaces_def)
  qed
qed

lemma drop_version_prefix:
  "length ts = 14 \<Longrightarrow>
     drop 15 (underscores_to_spaces (ts @ ''_'' @ rest)) = underscores_to_spaces rest"
  by (simp add: underscores_to_spaces_def)

subsection \<open>Paths\<close>

lemma split_on_not_Nil: "split_on sep xs \<noteq> []"
  by (induction xs) (auto split: list.splits)

lemma split_on_none: "sep \<notin> set f \<Longrightarrow> split_on sep f = [f]"
  by (induction f) auto

lemma split_on_append:
  "sep \<notin> set f \<Longrightarrow> split_on sep (xs @ sep # f) = split_on sep xs @ [f]"
proof (induction xs)
  case Nil
  then show ?case by (simp add: split_on_none)
next
  case (Cons c cs)
  then show ?case
    by (cases "split_on sep cs") (auto simp: split_on_not_Nil)
qed

lemma basename_append:
  assumes "CHR ''/'' \<notin> set f" and "d = [] \<or> last d = CHR ''/''"
  shows "basename (d @ f) = f"
proof (cases "d = []")
  case True
  with assms(1) show ?thesis by (simp add: basename_def split_on_none)
next
  case False
  with assms(2) obtain d' where "d = d' @ [CHR ''/'']"
    by (metis append_butlast_last_id)
  with split_on_append[OF assms(1), of d'] show ?thesis by (simp add: basename_def)
qed

lemma intercalate_snoc:
  "intercalate sep (xs @ [f]) = (if xs = [] then f else intercalate sep xs @ sep @ f)"
  by (induction sep xs rule: intercalate.induct) auto

lemma path_join_file:
  assumes "mp \<noteq> []" and "f \<noteq> []" and "CHR ''/'' \<notin> set f" and "f \<noteq> ''.''" and "f \<noteq> ''..''"
  shows "\<exists>d. path_join [mp, f] = d @ f \<and> (d = [] \<or> last d = CHR ''/'')"
proof -
  let ?p = "mp @ CHR ''/'' # f"
  let ?ab = "hd mp = CHR ''/''"
  let ?res = "foldl (norm_step (\<not> ?ab)) [] (split_on CHR ''/'' mp)"
  have j: "path_join [mp, f] = path_normalize ?p"
    using assms(1,2) by (simp add: path_join_def)
  have hd: "hd ?p = hd mp" using assms(1) by simp
  have lst: "last ?p \<noteq> CHR ''/''" using assms(2,3) by (metis last_ConsR last_appendR last_in_set list.discI)
  have ns: "normalizeString ?p (\<not> ?ab) = (if ?res = [] then f else intercalate ''/'' ?res @ ''/'' @ f)"
    using assms(2,4,5)
    by (simp add: normalizeString_def split_on_append[OF assms(3)] norm_step_def intercalate_snoc)
  then have ne: "normalizeString ?p (\<not> ?ab) \<noteq> []" using assms(2) by auto
  define d where "d = (if ?ab then ''/'' else []) @ (if ?res = [] then [] else intercalate ''/'' ?res @ ''/'')"
  have "path_normalize ?p = d @ f"
    using hd lst ne ns by (simp add: path_normalize_def Let_def d_def)
  moreover have "d = [] \<or> last d = CHR ''/''" by (simp add: d_def)
  ultimately show ?thesis using j by auto
qed

lemma path_normalize_not_Nil: "path_normalize p \<noteq> []"
  by (simp add: path_normalize_def Let_def)

lemma migrationsPath_not_Nil: "migrationsPath e \<noteq> []"
  by (simp add: migrationsPath_def path_join_def path_normalize_not_Nil)

subsection \<open>Occurrences of the suffix\<close>

lemma startsWith_append_sql:
  assumes "startsWith (xs @ ''.sql'') ''.sql''" and "xs \<noteq> []"
  shows "startsWith xs ''.sql''"
proof (cases xs)
  case Nil
  with assms(2) show ?thesis by simp
next
  case xs: (Cons a as)
  show ?thesis
  proof (cases as)
    case Nil
    with xs assms(1) show ?thesis by simp
  next
    case as: (Cons b bs)
    show ?thesis
    proof (cases bs)
      case Nil
      with xs as assms(1) show ?thesis by simp
    next
      case bs: (Cons c cs)
      show ?thesis
      proof (cases cs)
        case Nil
        with xs as bs assms(1) show ?thesis by simp
      next
        case (Cons d ds)
        with xs as bs assms(1) show ?thesis by simp
      qed
    qed
  qed
qed

lemma replace_first_no_occurrence:
  "\<not> string_includes xs ''.sql'' \<Longrightarrow> replace_first ''.sql'' [] (xs @ ''.sql'') = xs"
proof (induction xs)
  case Nil
  show ?case by simp
next
  case (Cons c cs)
  from Cons.prems have a: "\<not> startsWith (c # cs) ''.sql''" and b: "\<not> string_includes cs ''.sql''"
    by simp_all
  from a startsWith_append_sql[of "c # cs"] have "\<not> startsWith ((c # cs) @ ''.sql'') ''.sql''"
    by blast
  then have ns: "startsWith (c # (cs @ ''.sql'')) ''.sql'' = False" by simp
  have "replace_first ''.sql'' [] (c # (cs @ ''.sql'')) = c # replace_first ''.sql'' [] (cs @ ''.sql'')"
    by (simp only: replace_first.simps ns if_False)
  with Cons.IH[OF b] show ?case by simp
qed

lemma includes_after_prefix:
  "CHR ''.'' \<notin> set pre \<Longrightarrow> string_includes (pre @ xs) ''.sql'' = string_includes xs ''.sql''"
  by (induction pre) auto

lemma includes_dropWhile:
  "string_includes (dropWhile P cs) pat \<Longrightarrow> string_includes cs pat"
  by (induction cs) (auto split: if_splits)

lemma startsWith_spaces_to_underscore:
  "CHR ''_'' \<notin> set p \<Longrightarrow> startsWith (spaces_to_underscore cs) p \<Longrightarrow> startsWith cs p"
proof (induction p arbitrary: cs)
  case Nil
  show ?case by simp
next
  case (Cons a ps)
  show ?case
  proof (cases cs)
    case Nil
    with Cons.prems show ?thesis by simp
  next
    case (Cons c cs')
    with Cons.prems Cons.IH[of cs'] show ?thesis by (auto split: if_splits)
  qed
qed

lemma includes_spaces_to_underscore:
  "string_includes (spaces_to_underscore nm) ''.sql'' \<Longrightarrow> string_includes nm ''.sql''"
proof (induction nm rule: spaces_to_underscore.induct)
  case 1
  then show ?case by simp
next
  case (2 c cs)
  show ?case
  proof (cases "is_space c")
    case True
    with "2.prems" have "string_includes (spaces_to_underscore (dropWhile is_space cs)) ''.sql''"
      by simp
    from "2.IH"(1)[OF True this] have "string_includes (dropWhile is_space cs) ''.sql''" .
    from includes_dropWhile[OF this] show ?thesis by simp
  next
    case False
    from "2.prems" have "startsWith (spaces_to_underscore (c # cs)) ''.sql''
        \<or> string_includes (spaces_to_underscore cs) ''.sql''"
      using False by simp
    then show ?thesis
    proof
      assume "startsWith (spaces_to_underscore (c # cs)) ''.sql''"
      from startsWith_spaces_to_underscore[OF _ this] show ?thesis by simp
    next
      assume "string_includes (spaces_to_underscore cs) ''.sql''"
      from "2.IH"(2)[OF False this] show ?thesis by simp
    qed
  qed
qed

text \<open>
  Claim C9, as amended. For a clock before the year 10000 and a file that can be
  written, \<open>createMigration\<close> returns a file name made of the fourteen digits of the
  current time down to the second, a separator, the name with every run of white space
  replaced by one separator, and the suffix, and writes the template at the path joined
  from the migrations directory and that file name. For a name without a slash the file
  written has that file name. For a name in which \<open>.sql\<close> does not occur, the name the
  Runner derives from the file name, without the version prefix, is the input with every
  run of white space and every separator replaced by one space; it is the input itself
  when the input has no separator and no white space but single spaces.
\<close>

theorem createMigration_file_name:
  assumes "year (new_Date e (clock_reads s)) \<le> 9999"
    and "writeFile_error e
           (path_join [migrationsPath e,
              fileName_of (timestamp_of (new_Date e (clock_reads s))) nm]) = None"
  shows "\<exists>fileName ts. fst (createMigration e nm s) = Inr fileName
     \<and> written (snd (createMigration e nm s)) = written s @
          [(path_join [migrationsPath e, fileName],
            template_of nm (toISOString (new_Date e (clock_reads s + 1))))]
     \<and> fileName = ts @ ''_'' @ spaces_to_underscore nm @ ''.sql''
     \<and> ts = pad 4 (year (new_Date e (clock_reads s))) @ pad 2 (month (new_Date e (clock_reads s)))
          @ pad 2 (day (new_Date e (clock_reads s))) @ pad 2 (hours (new_Date e (clock_reads s)))
          @ pad 2 (minutes (new_Date e (clock_reads s))) @ pad 2 (seconds (new_Date e (clock_reads s)))
     \<and> length ts = 14 \<and> filter is_digit ts = ts
     \<and> (CHR ''/'' \<notin> set nm \<longrightarrow> basename (path_join [migrationsPath e, fileName]) = fileName)
     \<and> (\<not> string_includes nm ''.sql'' \<longrightarrow>
          version_of fileName = ts @ ''_'' @ spaces_to_underscore nm
          \<and> recovered_name fileName = underscores_to_spaces (spaces_to_underscore nm)
          \<and> (single_spaced nm \<and> CHR ''_'' \<notin> set nm \<longrightarrow> recovered_name fileName = nm))"
proof -
  let ?t = "new_Date e (clock_reads s)"
  let ?ts = "pad 4 (year ?t) @ pad 2 (month ?t) @ pad 2 (day ?t)
     @ pad 2 (hours ?t) @ pad 2 (minutes ?t) @ pad 2 (seconds ?t)"
  let ?f = "?ts @ ''_'' @ spaces_to_underscore nm @ ''.sql''"
  have ts: "timestamp_of ?t = ?ts" using timestamp_of_eq[OF assms(1)] .
  have f: "fileName_of (timestamp_of ?t) nm = ?f" by (simp add: fileName_of_def ts)
  have 1: "fst (createMigration e nm s) = Inr ?f"
    using assms(2) f by (simp add: createMigration_def new_Date_read_def Let_def)
  have 2: "written (snd (createMigration e nm s)) = written s @
      [(path_join [migrationsPath e, ?f],
        template_of nm (toISOString (new_Date e (clock_reads s + 1))))]"
    using assms(2) f by (simp add: createMigration_def new_Date_read_def Let_def)
  have len: "length ?ts = 14" by (simp add: length_pad)
  have dig: "filter is_digit ?ts = ?ts" by (simp add: pad_digits)
  have nodot_ts: "CHR ''.'' \<notin> set ?ts"
  proof -
    have "\<not> is_digit CHR ''.''" by (simp add: is_digit_def)
    then show ?thesis by (auto dest: pad_all_digits)
  qed
  have noslash_ts: "CHR ''/'' \<notin> set ?ts"
  proof -
    have "\<not> is_digit CHR ''/''" by (simp add: is_digit_def)
    then show ?thesis by (auto dest: pad_all_digits)
  qed
  have bn: "basename (path_join [migrationsPath e, ?f]) = ?f" if noslash: "CHR ''/'' \<notin> set nm"
  proof -
    have "CHR ''/'' \<notin> set (spaces_to_underscore nm)"
      using set_spaces_to_underscore[of nm] noslash by auto
    with noslash_ts have a: "CHR ''/'' \<notin> set ?f" by simp
    have "length ?f \<ge> 19" using len by simp
    then have b: "?f \<noteq> []" "?f \<noteq> ''.''" "?f \<noteq> ''..''" by auto
    from path_join_file[OF migrationsPath_not_Nil b(1) a b(2,3)] obtain d where
      "path_join [migrationsPath e, ?f] = d @ ?f" "d = [] \<or> last d = CHR ''/''"
      by blast
    with basename_append[OF a] show ?thesis by simp
  qed
  have rt: "version_of ?f = ?ts @ ''_'' @ spaces_to_underscore nm
      \<and> recovered_name ?f = underscores_to_spaces (spaces_to_underscore nm)
      \<and> (single_spaced nm \<and> CHR ''_'' \<notin> set nm \<longrightarrow> recovered_name ?f = nm)"
    if nosql: "\<not> string_includes nm ''.sql''"
  proof -
    from nosql includes_spaces_to_underscore
    have ns: "\<not> string_includes (spaces_to_underscore nm) ''.sql''" by blast
    have pre: "CHR ''.'' \<notin> set (?ts @ ''_'')" using nodot_ts by simp
    from includes_after_prefix[OF pre, of "spaces_to_underscore nm"] ns
    have "\<not> string_includes ((?ts @ ''_'') @ spaces_to_underscore nm) ''.sql''"
      by blast
    then have "\<not> string_includes (?ts @ ''_'' @ spaces_to_underscore nm) ''.sql''" by simp
    from replace_first_no_occurrence[OF this]
    have v: "version_of ?f = ?ts @ ''_'' @ spaces_to_underscore nm" by (simp add: version_of_def)
    then have "name_of ?f = underscores_to_spaces (?ts @ ''_'' @ spaces_to_underscore nm)"
      by (simp add: name_of_def version_of_def)
    then have r: "recovered_name ?f = underscores_to_spaces (spaces_to_underscore nm)"
      unfolding recovered_name_def using drop_version_prefix[OF len] by simp
    have x: "single_spaced nm \<and> CHR ''_'' \<notin> set nm \<longrightarrow> recovered_name ?f = nm"
      using r round_trip_exact by simp
    from v r x show ?thesis by (intro conjI)
  qed
  show ?thesis
  proof (intro exI conjI)
    show "fst (createMigration e nm s) = Inr ?f" by (rule 1)
    show "written (snd (createMigration e nm s)) = written s @
      [(path_join [migrationsPath e, ?f],
        template_of nm (toISOString (new_Date e (clock_reads s + 1))))]" by (rule 2)
    show "?f = ?ts @ ''_'' @ spaces_to_underscore nm @ ''.sql''" by (rule refl)
    show "?ts = ?ts" by (rule refl)
    show "length ?ts = 14" by (rule len)
    show "filter is_digit ?ts = ?ts" by (rule dig)
    show "CHR ''/'' \<notin> set nm \<longrightarrow> basename (path_join [migrationsPath e, ?f]) = ?f"
      using bn by blast
    show "\<not> string_includes nm ''.sql'' \<longrightarrow>
          version_of ?f = ?ts @ ''_'' @ spaces_to_underscore nm
          \<and> recovered_name ?f = underscores_to_spaces (spaces_to_underscore nm)
          \<and> (single_spaced nm \<and> CHR ''_'' \<notin> set nm \<longrightarrow> recovered_name ?f = nm)"
      using rt by blast
  qed
qed

text \<open>A name with a dot, on the ninth of March 2024 at 18:05:47.\<close>

theorem createMigration_file_name_witness:
  "fst (createMigration env_three ''add v1.2 table'' state0)
     = Inr ''20240309180547_add_v1.2_table.sql''
   \<and> map fst (written (snd (createMigration env_three ''add v1.2 table'' state0)))
       = [''/app/src/database/migrations/20240309180547_add_v1.2_table.sql'']
   \<and> basename ''/app/src/database/migrations/20240309180547_add_v1.2_table.sql''
       = ''20240309180547_add_v1.2_table.sql''
   \<and> recovered_name ''20240309180547_add_v1.2_table.sql'' = ''add v1.2 table''"
proof -
  let ?nm = "''add v1.2 table''"
  let ?fn = "''20240309180547_add_v1.2_table.sql''"
  let ?fp = "''/app/src/database/migrations/20240309180547_add_v1.2_table.sql''"
  have h1: "year (new_Date env_three (clock_reads state0)) \<le> 9999" by code_simp
  have h2: "writeFile_error env_three
      (path_join [migrationsPath env_three,
         fileName_of (timestamp_of (new_Date env_three (clock_reads state0))) ?nm]) = None"
    by (simp add: env_three_def env_of_def)
  have a: "fst (createMigration env_three ?nm state0) = Inr ?fn" by code_simp
  have p: "path_join [migrationsPath env_three, ?fn] = ?fp" by code_simp
  have w0: "written state0 = []" by (simp add: state0_def)
  have b: "CHR ''/'' \<notin> set ?nm \<and> \<not> string_includes ?nm ''.sql''
     \<and> single_spaced ?nm \<and> CHR ''_'' \<notin> set ?nm"
    by code_simp
  from createMigration_file_name[OF h1 h2] obtain fileName where
    f: "fst (createMigration env_three ?nm state0) = Inr fileName"
      "written (snd (createMigration env_three ?nm state0)) = written state0 @
          [(path_join [migrationsPath env_three, fileName],
            template_of ?nm (toISOString (new_Date env_three (clock_reads state0 + 1))))]"
      "CHR ''/'' \<notin> set ?nm \<longrightarrow> basename (path_join [migrationsPath env_three, fileName]) = fileName"
      "\<not> string_includes ?nm ''.sql'' \<longrightarrow>
         (single_spaced ?nm \<and> CHR ''_'' \<notin> set ?nm \<longrightarrow> recovered_name fileName = ?nm)"
    by blast
  from f(1) a have fn: "fileName = ?fn" by simp
  from f(2) fn p w0 have "map fst (written (snd (createMigration env_three ?nm state0))) = [?fp]"
    by simp
  moreover from f(3) fn p b have "basename ?fp = ?fn" by simp
  moreover from f(4) fn b have "recovered_name ?fn = ?nm" by blast
  ultimately show ?thesis using a by blast
qed

text \<open>
  The claim as stated fails in two ways. For a name that holds a separator, the
  separator comes back as a space, so the recovered name differs from the input in a
  character that is not white space. For a name with a slash and a \<open>..\<close> segment, joining
  the path removes the segment that holds the timestamp: the file written is \<open>b.sql\<close>.
\<close>

theorem createMigration_counterexample:
  "fst (createMigration env_three ''add_trades table'' state0)
     = Inr ''20240309180547_add_trades_table.sql''
   \<and> recovered_name ''20240309180547_add_trades_table.sql'' = ''add trades table''
   \<and> ''add trades table'' \<noteq> ''add_trades table''
   \<and> fst (createMigration env_three ''a/../b'' state0) = Inr ''20240309180547_a/../b.sql''
   \<and> map fst (written (snd (createMigration env_three ''a/../b'' state0)))
       = [''/app/src/database/migrations/b.sql'']"
  by code_simp

end
